theory Spec2Isabelle
  imports Complex_Main "HOL-Library.AList"
begin

section \<open>JavaScript numbers\<close>

text \<open>
  The handler computes with JavaScript numbers: IEEE 754 binary64 values. A finite
  number is modelled by the rational it denotes, next to the three special values.
  The two zeros are not told apart: the handler never divides by a zero, and
  \<open>-0 < 0\<close> is false like \<open>0 < 0\<close>, so no result of the handler depends on the
  sign of a zero.
\<close>

datatype jsnum = Fin rat | PInf | NInf | NaN

definition powi_rat :: "int \<Rightarrow> int \<Rightarrow> rat" where
  "powi_rat b k = (if 0 \<le> k then of_int (b ^ nat k) else 1 / of_int (b ^ nat (- k)))"

function count_digits :: "int \<Rightarrow> int \<Rightarrow> int" where
  \<comment> \<open>the number of digits of \<open>n\<close> in base \<open>b\<close>\<close>
  "count_digits b n = (if 0 < n \<and> 1 < b then count_digits b (n div b) + 1 else 0)"
  by pat_completeness auto
termination
  by (relation "measure (\<lambda>(b, n). nat n)") (auto simp: nat_less_iff intro: int_div_less_self)

declare count_digits.simps [simp del]

definition floor_log :: "int \<Rightarrow> rat \<Rightarrow> int" where
  \<comment> \<open>for \<open>x > 0\<close> and \<open>b > 1\<close>: the \<open>e\<close> with \<open>b ^ e \<le> x < b ^ (e + 1)\<close>\<close>
  "floor_log b x =
     (if 1 \<le> x then count_digits b \<lfloor>x\<rfloor> - 1
      else - count_digits b (\<lceil>1 / x\<rceil> - 1))"

definition round_half_even :: "rat \<Rightarrow> int" where
  "round_half_even r =
     (let f = \<lfloor>r\<rfloor>; d = r - of_int f
      in if d < 1 / 2 then f
         else if 1 / 2 < d then f + 1
         else if even f then f else f + 1)"

definition round_double :: "rat \<Rightarrow> jsnum" where
  \<comment> \<open>round to nearest, ties to even, with 53 significant bits, the least exponent
      \<open>-1022\<close> (below it the spacing stays \<open>2 ^ -1074\<close>) and overflow to infinity\<close>
  "round_double x =
     (if x = 0 then Fin 0
      else
        let m = \<bar>x\<bar>;
            e = max (floor_log 2 m) (- 1022);
            q = powi_rat 2 (e - 52);
            y = of_int (round_half_even (m / q)) * q
        in if powi_rat 2 1024 \<le> y then (if x < 0 then NInf else PInf)
           else Fin (if x < 0 then - y else y))"

fun js_add :: "jsnum \<Rightarrow> jsnum \<Rightarrow> jsnum" where
  "js_add NaN _ = NaN"
| "js_add _ NaN = NaN"
| "js_add PInf NInf = NaN"
| "js_add NInf PInf = NaN"
| "js_add PInf _ = PInf"
| "js_add _ PInf = PInf"
| "js_add NInf _ = NInf"
| "js_add _ NInf = NInf"
| "js_add (Fin a) (Fin b) = round_double (a + b)"

fun js_div :: "jsnum \<Rightarrow> jsnum \<Rightarrow> jsnum" where
  "js_div NaN _ = NaN"
| "js_div _ NaN = NaN"
| "js_div (Fin a) (Fin b) =
     (if b = 0 then (if a = 0 then NaN else if 0 < a then PInf else NInf)
      else round_double (a / b))"
| "js_div (Fin a) _ = Fin 0"
| "js_div PInf (Fin b) = (if b < 0 then NInf else PInf)"
| "js_div NInf (Fin b) = (if b < 0 then PInf else NInf)"
| "js_div _ _ = NaN"

fun js_lt :: "jsnum \<Rightarrow> jsnum \<Rightarrow> bool" where
  "js_lt NaN _ = False"
| "js_lt _ NaN = False"
| "js_lt (Fin a) (Fin b) = (a < b)"
| "js_lt NInf NInf = False"
| "js_lt NInf _ = True"
| "js_lt _ NInf = False"
| "js_lt PInf _ = False"
| "js_lt _ PInf = True"

definition js_gt :: "jsnum \<Rightarrow> jsnum \<Rightarrow> bool" where
  "js_gt a b = js_lt b a"

definition js_ge :: "jsnum \<Rightarrow> jsnum \<Rightarrow> bool" where
  \<comment> \<open>\<open>a >= b\<close>: false when either side is NaN\<close>
  "js_ge a b = (a \<noteq> NaN \<and> b \<noteq> NaN \<and> \<not> js_lt a b)"

subsection \<open>Number to string\<close>

definition digit_char :: "int \<Rightarrow> char" where
  "digit_char d = char_of (48 + d)"

function decimal_digits :: "int \<Rightarrow> string" where
  \<comment> \<open>the decimal digits of an integer \<open>n \<ge> 0\<close>\<close>
  "decimal_digits n =
     (if n < 10 then [digit_char n] else decimal_digits (n div 10) @ [digit_char (n mod 10)])"
  by pat_completeness auto
termination
  by (relation "measure nat") (auto simp: nat_less_iff intro: int_div_less_self)

declare decimal_digits.simps [simp del]

definition digit_candidates :: "rat \<Rightarrow> int \<Rightarrow> nat \<Rightarrow> int list" where
  \<comment> \<open>the \<open>k\<close>-digit integers \<open>s\<close> with \<open>s * 10 ^ (n - k)\<close> rounding to \<open>x\<close>, the closest
      to \<open>x\<close> first (of two equally close ones, the even one)\<close>
  "digit_candidates x n k =
     (let sc = x / powi_rat 10 (n - int k);
          lo = \<lfloor>sc\<rfloor>; hi = lo + 1;
          dl = sc - of_int lo; dh = of_int hi - sc;
          both = (if dl < dh \<or> (dl = dh \<and> even lo) then [lo, hi] else [hi, lo])
      in filter (\<lambda>s. if 10 ^ (k - 1) \<le> s \<and> s < 10 ^ k
                      then round_double (of_int s * powi_rat 10 (n - int k)) = Fin x
                      else False) both)"

function search_digits :: "rat \<Rightarrow> int \<Rightarrow> nat \<Rightarrow> int \<times> nat \<times> int" where
  \<comment> \<open>the least number of digits from \<open>k\<close> on that identifies \<open>x\<close>; 17 digits always
      identify a double, and are what a value that is no double falls back to\<close>
  "search_digits x n k =
     (if 17 < k then (n, 17, \<lfloor>x / powi_rat 10 (n - 17)\<rfloor>)
      else (case digit_candidates x n k of
              s # _ \<Rightarrow> (n, k, s)
            | [] \<Rightarrow> search_digits x n (Suc k)))"
  by pat_completeness auto
termination
  by (relation "measure (\<lambda>(x, n, k). 18 - k)") auto

declare search_digits.simps [simp del]

definition shortest_digits :: "rat \<Rightarrow> int \<times> nat \<times> int" where
  \<comment> \<open>Number::toString step 5, for \<open>x > 0\<close>: \<open>(n, k, s)\<close> with \<open>k\<close> least such that
      the \<open>k\<close>-digit \<open>s\<close> times \<open>10 ^ (n - k)\<close> is \<open>x\<close> as a double\<close>
  "shortest_digits x =
     (let n0 = floor_log 10 x + 1
      in if round_double (powi_rat 10 n0) = Fin x then (n0 + 1, 1, 1)
         else search_digits x n0 1)"

definition format_digits :: "int \<Rightarrow> nat \<Rightarrow> string \<Rightarrow> string" where
  \<comment> \<open>Number::toString steps 7 to 11, on the digits \<open>ds\<close> of \<open>s\<close>\<close>
  "format_digits n k ds =
     (if int k \<le> n \<and> n \<le> 21 then ds @ replicate (nat (n - int k)) CHR ''0''
      else if 0 < n \<and> n \<le> 21 then take (nat n) ds @ ''.'' @ drop (nat n) ds
      else if - 6 < n \<and> n \<le> 0 then ''0.'' @ replicate (nat (- n)) CHR ''0'' @ ds
      else
        (let ex = (if 0 \<le> n - 1 then ''+'' else ''-'') @ decimal_digits \<bar>n - 1\<bar>
         in if k = 1 then ds @ ''e'' @ ex
            else take 1 ds @ ''.'' @ drop 1 ds @ ''e'' @ ex))"

definition NumberToString :: "jsnum \<Rightarrow> string" where
  "NumberToString x =
     (case x of
        NaN \<Rightarrow> ''NaN''
      | PInf \<Rightarrow> ''Infinity''
      | NInf \<Rightarrow> ''-Infinity''
      | Fin r \<Rightarrow>
          if r = 0 then ''0''
          else
            (let (n, k, s) = shortest_digits \<bar>r\<bar>
             in (if r < 0 then ''-'' else []) @ format_digits n k (decimal_digits s)))"

definition toFixed2 :: "jsnum \<Rightarrow> string" where
  \<comment> \<open>\<open>Number.prototype.toFixed\<close> with 2 fraction digits\<close>
  "toFixed2 x =
     (case x of
        Fin r \<Rightarrow>
          (let a = \<bar>r\<bar>; sg = (if r < 0 then ''-'' else [])
           in if powi_rat 10 21 \<le> a then sg @ NumberToString (Fin a)
              else
                (let n = \<lfloor>a * 100 + 1 / 2\<rfloor>;
                     m = decimal_digits n;
                     m' = replicate (3 - length m) CHR ''0'' @ m
                 in sg @ take (length m' - 2) m' @ ''.'' @ drop (length m' - 2) m'))
      | _ \<Rightarrow> NumberToString x)"

subsection \<open>String to number\<close>

definition digit_value :: "char \<Rightarrow> int option" where
  "digit_value c =
     (let n = (of_char c :: int)
      in if 48 \<le> n \<and> n \<le> 57 then Some (n - 48)
         else if 97 \<le> n \<and> n \<le> 102 then Some (n - 87)
         else if 65 \<le> n \<and> n \<le> 70 then Some (n - 55)
         else None)"

definition is_digit_of :: "int \<Rightarrow> char \<Rightarrow> bool" where
  "is_digit_of b c = (case digit_value c of Some d \<Rightarrow> d < b | None \<Rightarrow> False)"

definition digits_value :: "int \<Rightarrow> string \<Rightarrow> int option" where
  \<comment> \<open>the value of a non-empty string of digits of base \<open>b\<close>\<close>
  "digits_value b s =
     (if s = [] \<or> \<not> list_all (is_digit_of b) s then None
      else Some (foldl (\<lambda>a c. a * b + (case digit_value c of Some d \<Rightarrow> d | None \<Rightarrow> 0)) 0 s))"

definition optional_digits :: "string \<Rightarrow> int option" where
  "optional_digits s = (if s = [] then Some 0 else digits_value 10 s)"

definition split_at :: "(char \<Rightarrow> bool) \<Rightarrow> string \<Rightarrow> string \<times> string option" where
  \<comment> \<open>the text before the first character that satisfies \<open>p\<close>, and the text after it\<close>
  "split_at p s =
     (takeWhile (\<lambda>c. \<not> p c) s,
      case dropWhile (\<lambda>c. \<not> p c) s of [] \<Rightarrow> None | _ # r \<Rightarrow> Some r)"

definition signed_integer :: "string \<Rightarrow> int option" where
  "signed_integer s =
     (case s of
        [] \<Rightarrow> None
      | c # r \<Rightarrow>
          if c = CHR ''+'' then digits_value 10 r
          else if c = CHR ''-'' then map_option uminus (digits_value 10 r)
          else digits_value 10 s)"

definition unsigned_decimal :: "string \<Rightarrow> rat option" where
  \<comment> \<open>the value of a StrUnsignedDecimalLiteral other than \<open>Infinity\<close>\<close>
  "unsigned_decimal s =
     (let (m, ex) = split_at (\<lambda>c. c = CHR ''e'' \<or> c = CHR ''E'') s;
          (ip, fp) = split_at (\<lambda>c. c = CHR ''.'') m
      in case (case ex of None \<Rightarrow> Some 0 | Some t \<Rightarrow> signed_integer t) of
           None \<Rightarrow> None
         | Some e \<Rightarrow>
             (case fp of
                None \<Rightarrow> map_option (\<lambda>n. of_int n * powi_rat 10 e) (digits_value 10 ip)
              | Some f \<Rightarrow>
                  if ip = [] \<and> f = [] then None
                  else
                    (case (optional_digits ip, optional_digits f) of
                       (Some a, Some b) \<Rightarrow>
                         Some ((of_int a + of_int b / 10 ^ length f) * powi_rat 10 e)
                     | _ \<Rightarrow> None)))"

definition is_white_space :: "char \<Rightarrow> bool" where
  "is_white_space c = ((of_char c :: int) \<in> {9, 10, 11, 12, 13, 32, 160})"

definition trim :: "string \<Rightarrow> string" where
  "trim s = rev (dropWhile is_white_space (rev (dropWhile is_white_space s)))"

definition radix_prefix :: "string \<Rightarrow> (int \<times> string) option" where
  "radix_prefix t =
     (case t of
        z # x # r \<Rightarrow>
          if z \<noteq> CHR ''0'' then None
          else if x = CHR ''x'' \<or> x = CHR ''X'' then Some (16, r)
          else if x = CHR ''o'' \<or> x = CHR ''O'' then Some (8, r)
          else if x = CHR ''b'' \<or> x = CHR ''B'' then Some (2, r)
          else None
      | _ \<Rightarrow> None)"

definition StringToNumber :: "string \<Rightarrow> jsnum" where
  \<comment> \<open>the exact value of the literal is rounded; an engine may round a literal of more
      than 20 significant digits from its first 20\<close>
  "StringToNumber s =
     (let t = trim s
      in if t = [] then Fin 0
         else
           (case radix_prefix t of
              Some (b, r) \<Rightarrow>
                (case digits_value b r of Some n \<Rightarrow> round_double (of_int n) | None \<Rightarrow> NaN)
            | None \<Rightarrow>
                (let neg = (hd t = CHR ''-'');
                     u = (if hd t = CHR ''+'' \<or> hd t = CHR ''-'' then tl t else t)
                 in if u = ''Infinity'' then (if neg then NInf else PInf)
                    else
                      (case unsigned_decimal u of
                         None \<Rightarrow> NaN
                       | Some v \<Rightarrow> round_double (if neg then - v else v)))))"

fun string_lt :: "string \<Rightarrow> string \<Rightarrow> bool" where
  \<comment> \<open>the order of strings by their code units\<close>
  "string_lt _ [] = False"
| "string_lt [] (_ # _) = True"
| "string_lt (a # as) (b # bs) =
     ((of_char a :: int) < of_char b \<or> (a = b \<and> string_lt as bs))"

section \<open>JavaScript values\<close>

text \<open>
  The request body is what \<open>req.json()\<close> returns: a JSON value. A string is a list of
  8-bit characters (the code units below 256). An object is the list of its own
  properties, keys distinct, in the order of their creation.
\<close>

datatype jsval =
    Undefined | Null | Bool bool | Num jsnum | Str string
  | Arr "jsval list" | Obj "(string \<times> jsval) list"

datatype error = TypeError | SyntaxError | ServiceError string

fun truthy :: "jsval \<Rightarrow> bool" where
  "truthy Undefined = False"
| "truthy Null = False"
| "truthy (Bool b) = b"
| "truthy (Num n) = (n \<noteq> NaN \<and> n \<noteq> Fin 0)"
| "truthy (Str s) = (s \<noteq> [])"
| "truthy (Arr _) = True"
| "truthy (Obj _) = True"

fun is_number :: "jsval \<Rightarrow> bool" where
  \<comment> \<open>\<open>typeof v === 'number'\<close>\<close>
  "is_number (Num _) = True"
| "is_number _ = False"

fun get_field :: "jsval \<Rightarrow> string \<Rightarrow> error + jsval" where
  \<comment> \<open>\<open>v.name\<close> for the names \<open>category\<close> and \<open>amount\<close>, which no built-in prototype
      defines: the own property of an object, \<open>undefined\<close> on any other value but
      \<open>null\<close> and \<open>undefined\<close>, whose properties cannot be read\<close>
  "get_field Undefined _ = Inl TypeError"
| "get_field Null _ = Inl TypeError"
| "get_field (Obj ps) name = Inr (case map_of ps name of Some v \<Rightarrow> v | None \<Rightarrow> Undefined)"
| "get_field _ _ = Inr Undefined"

fun ToString :: "jsval \<Rightarrow> error + string"
  and join_elements :: "jsval list \<Rightarrow> error + string" where
  "ToString Undefined = Inr ''undefined''"
| "ToString Null = Inr ''null''"
| "ToString (Bool b) = Inr (if b then ''true'' else ''false'')"
| "ToString (Num n) = Inr (NumberToString n)"
| "ToString (Str s) = Inr s"
| "ToString (Arr vs) = join_elements vs"
| "ToString (Obj ps) =
     \<comment> \<open>an own \<open>toString\<close> of a JSON object is not callable, and the inherited
         \<open>valueOf\<close> returns the object: no primitive value\<close>
     (if map_of ps ''toString'' = None then Inr ''[object Object]'' else Inl TypeError)"
| "join_elements [] = Inr []"
| "join_elements (v # vs) =
     (case (if v = Undefined \<or> v = Null then Inr [] else ToString v) of
        Inl e \<Rightarrow> Inl e
      | Inr s \<Rightarrow>
          if vs = [] then Inr s
          else (case join_elements vs of Inl e \<Rightarrow> Inl e | Inr t \<Rightarrow> Inr (s @ '','' @ t)))"

definition ToPropertyKey :: "jsval \<Rightarrow> error + string" where
  "ToPropertyKey v = ToString v"

section \<open>The object \<open>categorySales\<close>\<close>

text \<open>
  \<open>categorySales\<close> starts as \<open>{}\<close>, an ordinary object whose prototype is
  \<open>Object.prototype\<close>. What the handler stores in it is a result of \<open>+\<close>: a number
  or a string.
\<close>

datatype cell = CNum jsnum | CStr string

type_synonym object = "(string \<times> cell) list"

definition Object_prototype_functions :: "(string \<times> string) list" where
  \<comment> \<open>the function-valued properties of \<open>Object.prototype\<close>, each with the name its
      function carries\<close>
  "Object_prototype_functions =
     [(''constructor'', ''Object''),
      (''__defineGetter__'', ''__defineGetter__''),
      (''__defineSetter__'', ''__defineSetter__''),
      (''hasOwnProperty'', ''hasOwnProperty''),
      (''__lookupGetter__'', ''__lookupGetter__''),
      (''__lookupSetter__'', ''__lookupSetter__''),
      (''isPrototypeOf'', ''isPrototypeOf''),
      (''propertyIsEnumerable'', ''propertyIsEnumerable''),
      (''toString'', ''toString''),
      (''valueOf'', ''valueOf''),
      (''toLocaleString'', ''toLocaleString'')]"

definition inherited :: "string \<Rightarrow> bool" where
  \<comment> \<open>the names \<open>Object.prototype\<close> defines: its functions, and the accessor
      \<open>__proto__\<close>\<close>
  "inherited key = (key = ''__proto__'' \<or> map_of Object_prototype_functions key \<noteq> None)"

definition native_source :: "string \<Rightarrow> string" where
  \<comment> \<open>what a built-in function converts to as a string (the text V8 gives)\<close>
  "native_source name = ''function '' @ name @ ''() { [native code] }''"

datatype lookup = Value cell | Function string | Prototype | Absent

definition get_property :: "object \<Rightarrow> string \<Rightarrow> lookup" where
  \<comment> \<open>\<open>categorySales[key]\<close>: the own property, or else what \<open>Object.prototype\<close> has\<close>
  "get_property obj key =
     (case map_of obj key of
        Some v \<Rightarrow> Value v
      | None \<Rightarrow>
          if key = ''__proto__'' then Prototype
          else (case map_of Object_prototype_functions key of
                  Some f \<Rightarrow> Function f
                | None \<Rightarrow> Absent))"

fun or_zero :: "lookup \<Rightarrow> lookup" where
  \<comment> \<open>\<open>x || 0\<close>\<close>
  "or_zero Absent = Value (CNum (Fin 0))"
| "or_zero (Value (CNum n)) = Value (CNum (if n = NaN \<or> n = Fin 0 then Fin 0 else n))"
| "or_zero (Value (CStr s)) = Value (if s = [] then CNum (Fin 0) else CStr s)"
| "or_zero x = x"

fun plus_number :: "lookup \<Rightarrow> jsnum \<Rightarrow> cell" where
  \<comment> \<open>\<open>x + n\<close> for a number \<open>n\<close>: a sum of numbers, or a concatenation when \<open>x\<close>
      converts to a string\<close>
  "plus_number (Value (CNum m)) n = CNum (js_add m n)"
| "plus_number (Value (CStr s)) n = CStr (s @ NumberToString n)"
| "plus_number (Function f) n = CStr (native_source f @ NumberToString n)"
| "plus_number Prototype n = CStr (''[object Object]'' @ NumberToString n)"
| "plus_number Absent n = CNum NaN"

definition set_property :: "object \<Rightarrow> string \<Rightarrow> cell \<Rightarrow> object" where
  \<comment> \<open>\<open>categorySales[key] = v\<close>: an own property is overwritten in its place, a new
      one is added last; the setter of \<open>__proto__\<close> ignores a value that is no object\<close>
  "set_property obj key v =
     (if map_of obj key = None \<and> key = ''__proto__'' then obj
      else AList.update key v obj)"

definition array_index :: "string \<Rightarrow> int option" where
  \<comment> \<open>the canonical decimal strings of the integers up to \<open>2 ^ 32 - 2\<close>\<close>
  "array_index key =
     (case digits_value 10 key of
        None \<Rightarrow> None
      | Some i \<Rightarrow> if decimal_digits i = key \<and> i < 2 ^ 32 - 1 then Some i else None)"

definition is_array_index :: "string \<Rightarrow> bool" where
  "is_array_index key = (array_index key \<noteq> None)"

definition index_of :: "string \<Rightarrow> int" where
  "index_of key = (case array_index key of Some i \<Rightarrow> i | None \<Rightarrow> 0)"

definition Object_entries :: "object \<Rightarrow> (string \<times> cell) list" where
  \<comment> \<open>the own properties in the order of OrdinaryOwnPropertyKeys: array indices
      ascending, then the other keys in the order of their creation\<close>
  "Object_entries obj =
     sort_key (\<lambda>p. index_of (fst p)) (filter (\<lambda>p. is_array_index (fst p)) obj)
     @ filter (\<lambda>p. \<not> is_array_index (fst p)) obj"

fun cell_gt :: "cell \<Rightarrow> cell \<Rightarrow> bool" where
  \<comment> \<open>\<open>a > b\<close>: two strings by their code units, anything else as numbers\<close>
  "cell_gt (CStr a) (CStr b) = string_lt b a"
| "cell_gt (CNum a) (CNum b) = js_gt a b"
| "cell_gt (CStr a) (CNum b) = js_gt (StringToNumber a) b"
| "cell_gt (CNum a) (CStr b) = js_gt a (StringToNumber b)"

definition bestCategory :: "object \<Rightarrow> string \<times> cell" where
  "bestCategory categorySales =
     foldl (\<lambda>max entry. if cell_gt (snd entry) (snd max) then entry else max)
       ([], CNum (Fin 0)) (Object_entries categorySales)"

subsection \<open>\<open>JSON.stringify(categorySales, null, 2)\<close>\<close>

definition hex_digit :: "int \<Rightarrow> char" where
  "hex_digit d = (if d < 10 then char_of (48 + d) else char_of (87 + d))"

definition json_escape :: "char \<Rightarrow> string" where
  "json_escape c =
     (let n = (of_char c :: int)
      in if n = 8 then [CHR 0x5C, CHR ''b'']
         else if n = 9 then [CHR 0x5C, CHR ''t'']
         else if n = 10 then [CHR 0x5C, CHR ''n'']
         else if n = 12 then [CHR 0x5C, CHR ''f'']
         else if n = 13 then [CHR 0x5C, CHR ''r'']
         else if n = 34 then [CHR 0x5C, CHR 0x22]
         else if n = 92 then [CHR 0x5C, CHR 0x5C]
         else if n < 32 then
           [CHR 0x5C, CHR ''u'', CHR ''0'', CHR ''0'', hex_digit (n div 16), hex_digit (n mod 16)]
         else [c])"

definition QuoteJSONString :: "string \<Rightarrow> string" where
  "QuoteJSONString s = [CHR 0x22] @ concat (map json_escape s) @ [CHR 0x22]"

fun SerializeJSONProperty :: "cell \<Rightarrow> string" where
  "SerializeJSONProperty (CNum (Fin r)) = NumberToString (Fin r)"
| "SerializeJSONProperty (CNum _) = ''null''"
| "SerializeJSONProperty (CStr s) = QuoteJSONString s"

fun join_with :: "string \<Rightarrow> string list \<Rightarrow> string" where
  "join_with sep [] = []"
| "join_with sep [x] = x"
| "join_with sep (x # y # zs) = x @ sep @ join_with sep (y # zs)"

definition JSON_stringify :: "object \<Rightarrow> string" where
  \<comment> \<open>SerializeJSONObject with the gap of two spaces, at the top level\<close>
  "JSON_stringify obj =
     (let members =
            map (\<lambda>(k, v). QuoteJSONString k @ '': '' @ SerializeJSONProperty v)
              (Object_entries obj)
      in if members = [] then ''{}''
         else ''{'' @ [CHR 0x0A] @ ''  '' @ join_with ('','' @ [CHR 0x0A] @ ''  '') members
              @ [CHR 0x0A] @ ''}'')"

section \<open>The handler\<close>

record insights =
  totalSales :: jsnum
  averageSale :: jsnum
  categorySales :: object
  bestPerformingCategory :: string

datatype json = ErrorBody string | SuccessBody insights string

record response =
  body :: json
  status :: nat

datatype effect = ExternalCall string | ConsoleError error

datatype 'a completion = Throw error | Return response | Normal 'a

definition invalid_input :: response where
  "invalid_input =
     \<lparr>body = ErrorBody ''Invalid input: Expected an array of sales records'', status = 400\<rparr>"

definition invalid_sale_record :: response where
  "invalid_sale_record = \<lparr>body = ErrorBody ''Invalid sale record'', status = 400\<rparr>"

definition internal_server_error :: response where
  "internal_server_error = \<lparr>body = ErrorBody ''Internal Server Error'', status = 500\<rparr>"

definition sale_invalid :: "jsval \<Rightarrow> error + bool" where
  \<comment> \<open>\<open>!sale.category || typeof sale.amount !== 'number' || sale.amount < 0\<close>\<close>
  "sale_invalid sale =
     (case get_field sale ''category'' of
        Inl e \<Rightarrow> Inl e
      | Inr category \<Rightarrow>
          if \<not> truthy category then Inr True
          else
            (case get_field sale ''amount'' of
               Inl e \<Rightarrow> Inl e
             | Inr (Num amount) \<Rightarrow> Inr (js_lt amount (Fin 0))
             | Inr _ \<Rightarrow> Inr True))"

definition sale_step :: "jsnum \<times> object \<Rightarrow> jsval \<Rightarrow> (jsnum \<times> object) completion" where
  \<comment> \<open>one turn of the loop over \<open>body\<close>, on \<open>(totalSales, categorySales)\<close>\<close>
  "sale_step acc sale =
     (case get_field sale ''category'' of
        Inl e \<Rightarrow> Throw e
      | Inr category \<Rightarrow>
          if \<not> truthy category then Return invalid_sale_record
          else
            (case get_field sale ''amount'' of
               Inl e \<Rightarrow> Throw e
             | Inr (Num amount) \<Rightarrow>
                 if js_lt amount (Fin 0) then Return invalid_sale_record
                 else
                   (case ToPropertyKey category of
                      Inl e \<Rightarrow> Throw e
                    | Inr key \<Rightarrow>
                        Normal
                          (js_add (fst acc) amount,
                           set_property (snd acc) key
                             (plus_number (or_zero (get_property (snd acc) key)) amount)))
             | Inr _ \<Rightarrow> Return invalid_sale_record))"

fun sales_loop :: "jsnum \<times> object \<Rightarrow> jsval list \<Rightarrow> (jsnum \<times> object) completion" where
  "sales_loop acc [] = Normal acc"
| "sales_loop acc (sale # rest) =
     (case sale_step acc sale of
        Normal acc' \<Rightarrow> sales_loop acc' rest
      | Throw e \<Rightarrow> Throw e
      | Return r \<Rightarrow> Return r)"

definition make_insights :: "jsnum \<times> object \<Rightarrow> nat \<Rightarrow> insights" where
  "make_insights acc len =
     \<lparr>totalSales = fst acc,
      averageSale = js_div (fst acc) (Fin (of_nat len)),
      categorySales = snd acc,
      bestPerformingCategory = fst (bestCategory (snd acc))\<rparr>"

definition aiPrompt :: "insights \<Rightarrow> string" where
  "aiPrompt ins =
     [CHR 0x0A] @ ''      Based on the sales data, here are some key insights:''
     @ [CHR 0x0A] @ ''      - Total sales: $'' @ toFixed2 (totalSales ins)
     @ [CHR 0x0A] @ ''      - Average sales per transaction: $'' @ toFixed2 (averageSale ins)
     @ [CHR 0x0A] @ ''      - Best performing product category: '' @ bestPerformingCategory ins
     @ [CHR 0x0A] @ ''      - Breakdown per category: '' @ JSON_stringify (categorySales ins)
     @ [CHR 0x0A]
     @ [CHR 0x0A] @ ''      Summarize this data in a business-friendly tone.''
     @ [CHR 0x0A] @ ''    ''"

definition try_block ::
  "(string \<Rightarrow> error + string) \<Rightarrow> error + jsval \<Rightarrow> (error + response) \<times> effect list" where
  \<comment> \<open>the body of the \<open>try\<close>: what it throws or returns, and the calls it made.
      \<open>request_json\<close> is the outcome of \<open>req.json()\<close>; \<open>generate\<close> is the external
      service, from the prompt to the text of its response\<close>
  "try_block generate request_json =
     (case request_json of
        Inl e \<Rightarrow> (Inl e, [])
      | Inr (Arr sales) \<Rightarrow>
          if sales = [] then (Inr invalid_input, [])
          else
            (case sales_loop (Fin 0, []) sales of
               Throw e \<Rightarrow> (Inl e, [])
             | Return r \<Rightarrow> (Inr r, [])
             | Normal acc \<Rightarrow>
                 (let ins = make_insights acc (length sales);
                      prompt = aiPrompt ins
                  in case generate prompt of
                       Inl e \<Rightarrow> (Inl e, [ExternalCall prompt])
                     | Inr summary \<Rightarrow>
                         (Inr \<lparr>body = SuccessBody ins summary, status = 200\<rparr>,
                          [ExternalCall prompt])))
      | Inr _ \<Rightarrow> (Inr invalid_input, []))"

definition POST ::
  "(string \<Rightarrow> error + string) \<Rightarrow> error + jsval \<Rightarrow> response \<times> effect list" where
  "POST generate request_json =
     (case try_block generate request_json of
        (Inr r, effects) \<Rightarrow> (r, effects)
      | (Inl e, effects) \<Rightarrow> (internal_server_error, effects @ [ConsoleError e]))"

section \<open>The notions of the specification\<close>

text \<open>
  A valid SaleRecord is an object whose \<open>category\<close> is a non-empty string and whose
  \<open>amount\<close> is a number \<open>>= 0\<close>.
\<close>

definition valid_record :: "jsval \<Rightarrow> bool" where
  "valid_record sale =
     (case get_field sale ''category'' of
        Inr (Str c) \<Rightarrow>
          c \<noteq> [] \<and>
          (case get_field sale ''amount'' of
             Inr (Num a) \<Rightarrow> js_ge a (Fin 0)
           | _ \<Rightarrow> False)
      | _ \<Rightarrow> False)"

definition category_of :: "jsval \<Rightarrow> string" where
  "category_of sale = (case get_field sale ''category'' of Inr (Str c) \<Rightarrow> c | _ \<Rightarrow> [])"

definition amount_of :: "jsval \<Rightarrow> jsnum" where
  "amount_of sale = (case get_field sale ''amount'' of Inr (Num a) \<Rightarrow> a | _ \<Rightarrow> NaN)"

definition js_sum :: "jsnum list \<Rightarrow> jsnum" where
  \<comment> \<open>the sum of numbers as \<open>+\<close> computes it, from 0, in the order of the list\<close>
  "js_sum ns = foldl js_add (Fin 0) ns"

definition category_sum :: "jsval list \<Rightarrow> string \<Rightarrow> jsnum" where
  "category_sum sales c = js_sum (map amount_of (filter (\<lambda>s. category_of s = c) sales))"

fun first_seen :: "'a list \<Rightarrow> 'a list" where
  \<comment> \<open>the distinct elements of a list, in the order of their first occurrence\<close>
  "first_seen [] = []"
| "first_seen (x # xs) = x # filter (\<lambda>y. y \<noteq> x) (first_seen xs)"

definition key_order :: "string list \<Rightarrow> string list" where
  \<comment> \<open>the order in which an object lists keys that were created in the order \<open>ks\<close>\<close>
  "key_order ks =
     sort_key index_of (filter is_array_index ks) @ filter (\<lambda>k. \<not> is_array_index k) ks"

definition first_maximal :: "('a \<Rightarrow> jsnum) \<Rightarrow> 'a list \<Rightarrow> 'a option" where
  \<comment> \<open>the first element of \<open>ks\<close> that no element of \<open>ks\<close> exceeds\<close>
  "first_maximal f ks = find (\<lambda>c. list_all (\<lambda>d. \<not> js_gt (f d) (f c)) ks) ks"

definition accepted :: "jsval \<Rightarrow> bool" where
  \<comment> \<open>the record passes the field validation and its category converts to a key\<close>
  "accepted sale =
     (sale_invalid sale = Inr False \<and>
      (case get_field sale ''category'' of
         Inr c \<Rightarrow> (case ToPropertyKey c of Inr _ \<Rightarrow> True | Inl _ \<Rightarrow> False)
       | Inl _ \<Rightarrow> False))"

fun amount_invalid :: "jsval \<Rightarrow> bool" where
  \<comment> \<open>an amount is invalid when it is not a number or is negative\<close>
  "amount_invalid (Num n) = js_lt n (Fin 0)"
| "amount_invalid _ = True"

definition two_decimals :: "string \<Rightarrow> bool" where
  \<comment> \<open>decimal digits, a point, and two decimal digits\<close>
  "two_decimals s =
     (3 < length s \<and> s ! (length s - 3) = CHR ''.'' \<and>
      list_all (is_digit_of 10) (take (length s - 3) s) \<and>
      list_all (is_digit_of 10) (drop (length s - 2) s))"

fun is_array :: "jsval \<Rightarrow> bool" where
  \<comment> \<open>\<open>Array.isArray\<close>\<close>
  "is_array (Arr _) = True"
| "is_array _ = False"

definition template :: "string \<Rightarrow> string \<Rightarrow> string \<Rightarrow> string \<Rightarrow> string" where
  \<comment> \<open>the fixed text of the prompt around its four values\<close>
  "template total_text average_text best_text breakdown_text =
     [CHR 0x0A] @ ''      Based on the sales data, here are some key insights:''
     @ [CHR 0x0A] @ ''      - Total sales: $'' @ total_text
     @ [CHR 0x0A] @ ''      - Average sales per transaction: $'' @ average_text
     @ [CHR 0x0A] @ ''      - Best performing product category: '' @ best_text
     @ [CHR 0x0A] @ ''      - Breakdown per category: '' @ breakdown_text
     @ [CHR 0x0A]
     @ [CHR 0x0A] @ ''      Summarize this data in a business-friendly tone.''
     @ [CHR 0x0A] @ ''    ''"

definition fixed_two :: "rat \<Rightarrow> string" where
  \<comment> \<open>\<open>r \<ge> 0\<close> rounded to the nearest hundredth (a half goes up), written with two
      digits after the point\<close>
  "fixed_two r =
     (let n = \<lfloor>r * 100 + 1 / 2\<rfloor>
      in decimal_digits (n div 100) @ ''.'' @ [digit_char (n div 10 mod 10), digit_char (n mod 10)])"

fun nonneg_cell :: "cell \<Rightarrow> bool" where
  "nonneg_cell (CNum n) = js_ge n (Fin 0)"
| "nonneg_cell (CStr _) = False"

definition sum_so_far :: "object \<Rightarrow> string \<Rightarrow> jsnum" where
  \<comment> \<open>the number a key holds, 0 for a key that holds none\<close>
  "sum_so_far obj k = (case map_of obj k of Some (CNum n) \<Rightarrow> n | _ \<Rightarrow> Fin 0)"

subsection \<open>Requests of the test-suite and further requests\<close>

definition sale_record :: "string \<Rightarrow> jsnum \<Rightarrow> jsval" where
  "sale_record c a = Obj [(''category'', Str c), (''amount'', Num a)]"

definition example_sales :: "jsval list" where
  "example_sales =
     [sale_record ''Electronics'' (Fin 100), sale_record ''Clothing'' (Fin 50),
      sale_record ''Electronics'' (Fin 200)]"

definition example_insights :: insights where
  "example_insights =
     \<lparr>totalSales = Fin 350, averageSale = js_div (Fin 350) (Fin 3),
      categorySales = [(''Electronics'', CNum (Fin 300)), (''Clothing'', CNum (Fin 50))],
      bestPerformingCategory = ''Electronics''\<rparr>"


definition tie_sales :: "jsval list" where
  "tie_sales = [sale_record ''b'' (Fin 1), sale_record ''1'' (Fin 1)]"

definition missing_amount :: jsval where
  "missing_amount = Obj [(''category'', Str ''Electronics'')]"


definition nan_sales :: "jsval list" where
  "nan_sales = [sale_record ''A'' NaN]"

definition example_breakdown :: string where
  "example_breakdown =
     ''{'' @ [CHR 0x0A] @ ''  '' @ [CHR 0x22] @ ''Electronics'' @ [CHR 0x22] @ '': 300,''
     @ [CHR 0x0A] @ ''  '' @ [CHR 0x22] @ ''Clothing'' @ [CHR 0x22] @ '': 50''
     @ [CHR 0x0A] @ ''}''"

definition big_sales :: "jsval list" where
  "big_sales = [sale_record ''A'' (Fin (10 ^ 21))]"

definition big_breakdown :: string where
  "big_breakdown =
     ''{'' @ [CHR 0x0A] @ ''  '' @ [CHR 0x22] @ ''A'' @ [CHR 0x22] @ '': 1e+21'' @ [CHR 0x0A] @ ''}''"

definition mock_summary :: "string \<Rightarrow> error + string" where
  "mock_summary prompt = Inr ''Mocked AI summary''"

definition api_failure :: "string \<Rightarrow> error + string" where
  "api_failure prompt = Inl (ServiceError ''API failure'')"

section \<open>Arithmetic of numbers\<close>

lemma powi_rat_pos: "0 < b \<Longrightarrow> 0 < powi_rat b k"
  by (simp add: powi_rat_def)

lemma round_half_even_nonneg: "0 \<le> r \<Longrightarrow> 0 \<le> round_half_even r"
  by (auto simp: round_half_even_def Let_def)

lemma round_half_even_of_int: "round_half_even (of_int z) = z"
  by (simp add: round_half_even_def)

lemma round_double_nonneg:
  assumes "0 \<le> x"
  shows "js_ge (round_double x) (Fin 0)"
proof (cases "x = 0")
  case True
  then show ?thesis by (simp add: round_double_def js_ge_def)
next
  case False
  define q where "q = powi_rat 2 (max (floor_log 2 \<bar>x\<bar>) (- 1022) - 52)"
  have q: "0 < q" by (simp add: q_def powi_rat_pos)
  have "0 \<le> \<bar>x\<bar> / q" using q by simp
  then have "0 \<le> round_half_even (\<bar>x\<bar> / q)" by (rule round_half_even_nonneg)
  then have "0 \<le> rat_of_int (round_half_even (\<bar>x\<bar> / q)) * q" using q by simp
  then show ?thesis
    using False assms by (simp add: round_double_def Let_def js_ge_def q_def)
qed

lemma js_ge_zero_cases: "js_ge a (Fin 0) \<longleftrightarrow> a = PInf \<or> (\<exists>r. a = Fin r \<and> 0 \<le> r)"
  by (cases a) (auto simp: js_ge_def)

lemma js_add_nonneg:
  assumes "js_ge a (Fin 0)" "js_ge b (Fin 0)"
  shows "js_ge (js_add a b) (Fin 0)"
proof (cases a)
  case (Fin r)
  show ?thesis
  proof (cases b)
    case (Fin t)
    with \<open>a = Fin r\<close> assms have "0 \<le> r + t" by (simp add: js_ge_def)
    then show ?thesis using \<open>a = Fin r\<close> Fin by (simp add: round_double_nonneg)
  qed (use assms Fin in \<open>simp_all add: js_ge_def\<close>)
next
  case PInf
  then show ?thesis using assms by (cases b) (simp_all add: js_ge_def)
qed (use assms in \<open>simp_all add: js_ge_def\<close>)

lemma count_digits_bounds:
  assumes "0 < n" and "1 < b"
  shows "1 \<le> count_digits b n \<and> b ^ nat (count_digits b n - 1) \<le> n \<and> n < b ^ nat (count_digits b n)"
  using assms
proof (induction b n rule: count_digits.induct)
  case (1 b n)
  show ?case
  proof (cases "n div b = 0")
    case True
    then have "count_digits b (n div b) = 0" by (simp add: count_digits.simps)
    then have c: "count_digits b n = 1" using "1.prems" by (subst count_digits.simps) simp
    from True "1.prems" have "n < b"
      by (metis div_pos_pos_trivial linorder_not_less nonneg1_imp_zdiv_pos_iff order_less_imp_le
          less_irrefl zero_less_one order_less_trans)
    with "1.prems" c show ?thesis by simp
  next
    case False
    with "1.prems" have pos: "0 < n div b"
      by (metis div_int_pos_iff less_le order_less_imp_le zero_less_one order_less_trans)
    define c where "c = count_digits b (n div b)"
    from "1.IH"[OF _ pos "1.prems"(2)] "1.prems" have
      c1: "1 \<le> c" and lo: "b ^ nat (c - 1) \<le> n div b" and hi: "n div b < b ^ nat c"
      by (simp_all add: c_def)
    have cn: "count_digits b n = c + 1" using "1.prems" by (subst count_digits.simps) (simp add: c_def)
    have eq: "b * (n div b) = n - n mod b" by (simp add: minus_mod_eq_mult_div)
    have m: "0 \<le> n mod b" "n mod b < b" using "1.prems" by simp_all
    have "b ^ nat c = b * b ^ nat (c - 1)"
      using c1 by (metis Suc_nat_eq_nat_zadd1 add.commute diff_add_cancel diff_ge_0_iff_ge
          power_Suc)
    also have "\<dots> \<le> b * (n div b)" using lo "1.prems" by simp
    also have "\<dots> \<le> n" using m eq by linarith
    finally have low: "b ^ nat c \<le> n" .
    have "n div b + 1 \<le> b ^ nat c" using hi by simp
    then have "b * (n div b + 1) \<le> b * b ^ nat c" using "1.prems" by simp
    moreover have "n < b * (n div b + 1)"
    proof -
      have "b * (n div b + 1) = b * (n div b) + b" by (simp add: algebra_simps)
      with m eq show ?thesis by linarith
    qed
    ultimately have "n < b * b ^ nat c" by linarith
    moreover have "b * b ^ nat c = b ^ nat (c + 1)"
      using c1 by (metis Suc_nat_eq_nat_zadd1 add.commute power_Suc zero_le_one order_trans)
    ultimately have high: "n < b ^ nat (c + 1)" by simp
    from c1 low high show ?thesis unfolding cn by simp
  qed
qed

lemma floor_log_of_int:
  assumes "0 < k"
  shows "floor_log 2 (of_int k) = count_digits 2 k - 1"
  using assms by (simp add: floor_log_def)

lemma round_double_of_int:
  assumes "0 \<le> k" and "k < 2 ^ 53"
  shows "round_double (of_int k) = Fin (of_int k)"
proof (cases "k = 0")
  case True
  then show ?thesis by (simp add: round_double_def)
next
  case False
  with assms have k: "0 < k" by simp
  define L where "L = count_digits 2 k"
  from count_digits_bounds[OF k, of 2] have L1: "1 \<le> L" and lo: "2 ^ nat (L - 1) \<le> k"
    by (simp_all add: L_def)
  from lo assms(2) have p: "(2::int) ^ nat (L - 1) < 2 ^ 53" by linarith
  have "nat (L - 1) < 53" by (rule power_less_imp_less_exp[OF _ p]) simp
  with L1 have L53: "L \<le> 53" by linarith
  define j where "j = nat (53 - L)"
  have e: "max (floor_log 2 \<bar>of_int k\<bar>) (- 1022) = L - 1"
    using L1 k by (simp add: floor_log_of_int L_def)
  have q: "powi_rat 2 (L - 1 - 52) = 1 / 2 ^ j"
  proof (cases "L = 53")
    case True
    then show ?thesis by (simp add: powi_rat_def j_def)
  next
    case False
    with L53 have "L - 1 - 52 < 0" by simp
    moreover have "nat (- (L - 1 - 52)) = j" by (simp add: j_def)
    ultimately show ?thesis by (simp add: powi_rat_def)
  qed
  have "\<bar>rat_of_int k\<bar> / (1 / 2 ^ j) = of_int (k * 2 ^ j)" using k by simp
  then have r: "round_half_even (\<bar>rat_of_int k\<bar> / (1 / 2 ^ j)) = k * 2 ^ j"
    by (simp only: round_half_even_of_int)
  have y: "rat_of_int (k * 2 ^ j) * (1 / 2 ^ j) = of_int k" by simp
  have "rat_of_int k < of_int (2 ^ 53)" using assms(2) by (simp only: of_int_less_iff)
  also have "\<dots> \<le> 2 ^ 1024" by simp
  finally have small: "\<not> powi_rat 2 1024 \<le> rat_of_int k" by (simp add: powi_rat_def)
  show ?thesis
    unfolding round_double_def Let_def e q r y using k small by simp
qed

lemma round_double_numeral:
  "numeral k < (2::int) ^ 53 \<Longrightarrow> round_double (numeral k) = Fin (numeral k)"
  using round_double_of_int[of "numeral k"] by simp

lemma round_double_zero: "round_double 0 = Fin 0"
  by (simp add: round_double_def)

lemma round_double_one: "round_double 1 = Fin 1"
  using round_double_of_int[of 1] by simp

lemmas round_small = round_double_numeral round_double_zero round_double_one

section \<open>The loop over the records\<close>

lemma sale_step_total:
  "sale_step acc s = Normal acc' \<Longrightarrow> fst acc' = js_add (fst acc) (amount_of s)"
  by (auto simp: sale_step_def amount_of_def split: sum.splits if_splits jsval.splits)

lemma sales_loop_total:
  "sales_loop acc sales = Normal acc' \<Longrightarrow> fst acc' = foldl js_add (fst acc) (map amount_of sales)"
proof (induction sales arbitrary: acc)
  case Nil
  then show ?case by simp
next
  case (Cons s sales)
  then obtain acc1 where s1: "sale_step acc s = Normal acc1"
    and rest: "sales_loop acc1 sales = Normal acc'"
    by (auto split: completion.splits)
  from Cons.IH[OF rest] sale_step_total[OF s1] show ?case by simp
qed

lemma sale_step_Return: "sale_step acc s = Return r \<Longrightarrow> r = invalid_sale_record"
  by (auto simp: sale_step_def split: sum.splits if_splits jsval.splits)

lemma sales_loop_Return: "sales_loop acc sales = Return r \<Longrightarrow> r = invalid_sale_record"
  by (induction sales arbitrary: acc) (auto split: completion.splits dest: sale_step_Return)

lemma sales_loop_append:
  "sales_loop acc (xs @ ys) =
     (case sales_loop acc xs of
        Normal acc' \<Rightarrow> sales_loop acc' ys
      | Throw e \<Rightarrow> Throw e
      | Return r \<Rightarrow> Return r)"
  by (induction xs arbitrary: acc) (auto split: completion.splits)

lemma POST_success:
  assumes "fst (POST generate request_json) = \<lparr>body = SuccessBody ins summary, status = 200\<rparr>"
  shows "\<exists>sales acc. request_json = Inr (Arr sales) \<and> sales \<noteq> [] \<and>
           sales_loop (Fin 0, []) sales = Normal acc \<and>
           ins = make_insights acc (length sales) \<and>
           generate (aiPrompt ins) = Inr summary"
  using assms
  by (auto simp: POST_def try_block_def Let_def invalid_input_def internal_server_error_def
        invalid_sale_record_def
      split: sum.splits jsval.splits if_splits completion.splits dest!: sales_loop_Return)

lemma POST_Normal:
  assumes "sales \<noteq> []" "sales_loop (Fin 0, []) sales = Normal acc"
  shows "POST generate (Inr (Arr sales)) =
           (case generate (aiPrompt (make_insights acc (length sales))) of
              Inr summary \<Rightarrow>
                (\<lparr>body = SuccessBody (make_insights acc (length sales)) summary, status = 200\<rparr>,
                 [ExternalCall (aiPrompt (make_insights acc (length sales)))])
            | Inl e \<Rightarrow>
                (internal_server_error,
                 [ExternalCall (aiPrompt (make_insights acc (length sales))), ConsoleError e]))"
  using assms by (simp add: POST_def try_block_def Let_def split: sum.splits)

lemma POST_Return:
  assumes "sales \<noteq> []" "sales_loop (Fin 0, []) sales = Return r"
  shows "POST generate (Inr (Arr sales)) = (r, [])"
  using assms by (simp add: POST_def try_block_def)

lemma POST_Throw:
  assumes "sales \<noteq> []" "sales_loop (Fin 0, []) sales = Throw e"
  shows "POST generate (Inr (Arr sales)) = (internal_server_error, [ConsoleError e])"
  using assms by (simp add: POST_def try_block_def)

section \<open>Valid records\<close>

lemma valid_record_fields:
  assumes "valid_record s"
  shows "get_field s ''category'' = Inr (Str (category_of s))" "category_of s \<noteq> []"
    "get_field s ''amount'' = Inr (Num (amount_of s))" "js_ge (amount_of s) (Fin 0)"
  using assms
  by (auto simp: valid_record_def category_of_def amount_of_def split: sum.splits jsval.splits)

lemma sale_step_valid:
  assumes "valid_record s"
  shows "sale_step acc s =
           Normal (js_add (fst acc) (amount_of s),
                   set_property (snd acc) (category_of s)
                     (plus_number (or_zero (get_property (snd acc) (category_of s))) (amount_of s)))"
  using valid_record_fields[OF assms]
  by (simp add: sale_step_def ToPropertyKey_def js_ge_def)

lemma valid_record_accepted: "valid_record s \<Longrightarrow> accepted s"
  using valid_record_fields[of s]
  by (simp add: accepted_def sale_invalid_def ToPropertyKey_def js_ge_def)

section \<open>The object built from valid records\<close>

lemma nonneg_cell_iff: "nonneg_cell v \<longleftrightarrow> (\<exists>n. v = CNum n \<and> js_ge n (Fin 0))"
  by (cases v) auto

lemma js_ge_not_NaN: "js_ge n (Fin 0) \<Longrightarrow> n \<noteq> NaN"
  by (simp add: js_ge_def)

lemma sum_so_far_Some:
  "map_of obj k = Some (CNum n) \<Longrightarrow> sum_so_far obj k = n"
  by (simp add: sum_so_far_def)

lemma sum_so_far_None: "map_of obj k = None \<Longrightarrow> sum_so_far obj k = Fin 0"
  by (simp add: sum_so_far_def)

lemma good_lookup:
  assumes "list_all (\<lambda>p. nonneg_cell (snd p)) obj" "map_of obj k = Some v"
  shows "nonneg_cell v"
  using assms by (auto simp: list_all_iff dest!: map_of_SomeD)

lemma sum_so_far_nonneg:
  assumes "list_all (\<lambda>p. nonneg_cell (snd p)) obj"
  shows "js_ge (sum_so_far obj k) (Fin 0)"
proof (cases "map_of obj k")
  case None
  then show ?thesis by (simp add: sum_so_far_def js_ge_def)
next
  case (Some v)
  with good_lookup[OF assms Some] show ?thesis
    by (auto simp: nonneg_cell_iff sum_so_far_def)
qed

lemma plus_or_zero:
  assumes "list_all (\<lambda>p. nonneg_cell (snd p)) obj" "\<not> inherited k"
  shows "plus_number (or_zero (get_property obj k)) a = CNum (js_add (sum_so_far obj k) a)"
proof (cases "map_of obj k")
  case None
  with assms(2) show ?thesis
    by (simp add: get_property_def inherited_def sum_so_far_def split: option.splits)
next
  case (Some v)
  from good_lookup[OF assms(1) Some] obtain n where v: "v = CNum n" and n: "js_ge n (Fin 0)"
    by (auto simp: nonneg_cell_iff)
  from n have "n \<noteq> NaN" by (rule js_ge_not_NaN)
  with Some v show ?thesis
    by (simp add: get_property_def sum_so_far_def)
qed

lemma set_property_update: "\<not> inherited k \<Longrightarrow> set_property obj k v = AList.update k v obj"
  by (simp add: set_property_def inherited_def)

lemma good_update:
  assumes "list_all (\<lambda>p. nonneg_cell (snd p)) obj" "nonneg_cell v"
  shows "list_all (\<lambda>p. nonneg_cell (snd p)) (AList.update k v obj)"
  using assms by (induction obj) auto

lemma sum_so_far_update:
  "sum_so_far (AList.update k (CNum n) obj) k' = (if k' = k then n else sum_so_far obj k')"
  by (simp add: sum_so_far_def update_conv')

lemma first_seen_set [simp]: "set (first_seen xs) = set xs"
  by (induction xs) auto

lemma first_seen_distinct [simp]: "distinct (first_seen xs)"
  by (induction xs) auto

lemma sales_loop_valid:
  assumes "list_all valid_record sales"
    and "list_all (\<lambda>s. \<not> inherited (category_of s)) sales"
    and "list_all (\<lambda>p. nonneg_cell (snd p)) obj"
  shows "\<exists>obj'. sales_loop (t, obj) sales = Normal (foldl js_add t (map amount_of sales), obj') \<and>
           list_all (\<lambda>p. nonneg_cell (snd p)) obj' \<and>
           map fst obj' =
             map fst obj @ filter (\<lambda>c. c \<notin> set (map fst obj)) (first_seen (map category_of sales)) \<and>
           (\<forall>k. sum_so_far obj' k =
                  foldl js_add (sum_so_far obj k)
                    (map amount_of (filter (\<lambda>s. category_of s = k) sales)))"
  using assms
proof (induction sales arbitrary: t obj)
  case Nil
  then show ?case by simp
next
  case (Cons s sales)
  let ?c = "category_of s" and ?a = "amount_of s"
  let ?n = "js_add (sum_so_far obj ?c) ?a"
  let ?obj1 = "AList.update ?c (CNum ?n) obj"
  from Cons.prems have s: "valid_record s" and c: "\<not> inherited ?c" by simp_all
  have step: "sale_step (t, obj) s = Normal (js_add t ?a, ?obj1)"
    using sale_step_valid[OF s, of "(t, obj)"] plus_or_zero[OF Cons.prems(3) c]
      set_property_update[OF c] by simp
  have "js_ge ?n (Fin 0)"
    using sum_so_far_nonneg[OF Cons.prems(3)] valid_record_fields(4)[OF s] by (rule js_add_nonneg)
  then have good1: "list_all (\<lambda>p. nonneg_cell (snd p)) ?obj1"
    using Cons.prems(3) by (simp add: good_update)
  from Cons.prems have rest: "list_all valid_record sales"
    "list_all (\<lambda>s. \<not> inherited (category_of s)) sales" by simp_all
  from Cons.IH[OF rest good1, of "js_add t ?a"] obtain obj' where
    loop: "sales_loop (js_add t ?a, ?obj1) sales =
             Normal (foldl js_add (js_add t ?a) (map amount_of sales), obj')"
    and good': "list_all (\<lambda>p. nonneg_cell (snd p)) obj'"
    and keys: "map fst obj' =
                 map fst ?obj1 @
                 filter (\<lambda>c. c \<notin> set (map fst ?obj1)) (first_seen (map category_of sales))"
    and sums: "\<And>k. sum_so_far obj' k =
                 foldl js_add (sum_so_far ?obj1 k)
                   (map amount_of (filter (\<lambda>s. category_of s = k) sales))"
    by blast
  have k: "map fst obj' =
             map fst obj @
             filter (\<lambda>c. c \<notin> set (map fst obj)) (first_seen (map category_of (s # sales)))"
  proof (cases "?c \<in> set (map fst obj)")
    case True
    have "filter (\<lambda>c. c \<notin> set (map fst obj)) (filter (\<lambda>y. y \<noteq> ?c) (first_seen (map category_of sales)))
          = filter (\<lambda>c. c \<notin> set (map fst obj)) (first_seen (map category_of sales))"
      using True by (auto intro!: filter_cong)
    with True keys show ?thesis by (simp add: update_keys)
  next
    case False
    have "filter (\<lambda>c. c \<notin> set (map fst obj)) (filter (\<lambda>y. y \<noteq> ?c) (first_seen (map category_of sales)))
          = filter (\<lambda>c. c \<notin> set (map fst obj @ [?c])) (first_seen (map category_of sales))"
      by (auto intro!: filter_cong)
    with False keys show ?thesis by (simp add: update_keys)
  qed
  have v: "sum_so_far obj' k =
             foldl js_add (sum_so_far obj k)
               (map amount_of (filter (\<lambda>s. category_of s = k) (s # sales)))" for k
    using sums[of k] by (simp add: sum_so_far_update)
  from step loop good' k v show ?case by simp
qed


lemma object_from_keys:
  assumes "distinct (map fst obj)" "list_all (\<lambda>p. nonneg_cell (snd p)) obj"
  shows "obj = map (\<lambda>k. (k, CNum (sum_so_far obj k))) (map fst obj)"
  using assms
proof (induction obj)
  case Nil
  then show ?case by simp
next
  case (Cons p obj)
  obtain k v where p: "p = (k, v)" by (cases p)
  from Cons.prems p obtain n where v: "v = CNum n" by (auto simp: nonneg_cell_iff)
  from Cons.prems p have notin: "k \<notin> fst ` set obj" by auto
  have "map (\<lambda>k'. (k', CNum (sum_so_far (p # obj) k'))) (map fst obj)
        = map (\<lambda>k'. (k', CNum (sum_so_far obj k'))) (map fst obj)"
    using notin p by (auto simp: sum_so_far_def)
  also from Cons have "\<dots> = obj" by simp
  finally have tail: "map (\<lambda>k'. (k', CNum (sum_so_far (p # obj) k'))) (map fst obj) = obj" .
  have head: "sum_so_far (p # obj) k = n" using p v by (simp add: sum_so_far_def)
  have "map (\<lambda>k'. (k', CNum (sum_so_far (p # obj) k'))) (map fst (p # obj))
        = (k, CNum (sum_so_far (p # obj) k)) # map (\<lambda>k'. (k', CNum (sum_so_far (p # obj) k'))) (map fst obj)"
    using p by simp
  also have "\<dots> = (k, CNum n) # obj" unfolding head tail ..
  finally show ?case using p v by simp
qed

lemma sales_loop_object:
  assumes "list_all valid_record sales"
    and "list_all (\<lambda>s. \<not> inherited (category_of s)) sales"
  shows "sales_loop (Fin 0, []) sales =
           Normal (js_sum (map amount_of sales),
                   map (\<lambda>c. (c, CNum (category_sum sales c))) (first_seen (map category_of sales)))"
proof -
  from sales_loop_valid[OF assms, of "[]" "Fin 0"] obtain obj' where
    loop: "sales_loop (Fin 0, []) sales = Normal (foldl js_add (Fin 0) (map amount_of sales), obj')"
    and good: "list_all (\<lambda>p. nonneg_cell (snd p)) obj'"
    and keys: "map fst obj' = first_seen (map category_of sales)"
    and sums: "\<And>k. sum_so_far obj' k = category_sum sales k"
    by (auto simp: category_sum_def js_sum_def sum_so_far_def)
  have "distinct (map fst obj')" by (simp add: keys)
  from object_from_keys[OF this good] have "obj' = map (\<lambda>k. (k, CNum (category_sum sales k))) (first_seen (map category_of sales))"
    by (simp add: sums keys)
  with loop show ?thesis by (simp add: js_sum_def)
qed

lemma insort_key_map_pair:
  "insort_key (\<lambda>p. h (fst p)) (k, f k) (map (\<lambda>k. (k, f k)) ks)
     = map (\<lambda>k. (k, f k)) (insort_key h k ks)"
  by (induction ks) auto

lemma sort_key_map_pair:
  "sort_key (\<lambda>p. h (fst p)) (map (\<lambda>k. (k, f k)) ks) = map (\<lambda>k. (k, f k)) (sort_key h ks)"
  by (induction ks) (auto simp: insort_key_map_pair)

lemma Object_entries_map:
  "Object_entries (map (\<lambda>k. (k, f k)) ks) = map (\<lambda>k. (k, f k)) (key_order ks)"
  by (simp add: Object_entries_def key_order_def filter_map comp_def sort_key_map_pair)

lemma key_order_set [simp]: "set (key_order ks) = set ks"
  by (auto simp: key_order_def)


section \<open>The best category\<close>

lemma nonneg_cell_cases:
  "nonneg_cell v \<longleftrightarrow> v = CNum PInf \<or> (\<exists>r. v = CNum (Fin r) \<and> 0 \<le> r)"
  by (cases v) (auto simp: js_ge_zero_cases)

lemma cell_le_trans:
  assumes "nonneg_cell a" "nonneg_cell b" "nonneg_cell c"
    and "\<not> cell_gt a b" "\<not> cell_gt b c"
  shows "\<not> cell_gt a c"
  using assms by (auto simp: nonneg_cell_cases js_gt_def)

lemma cell_gt_le_trans:
  assumes "nonneg_cell a" "nonneg_cell b" "nonneg_cell c"
    and "cell_gt a b" "\<not> cell_gt c b"
  shows "cell_gt a c"
  using assms by (auto simp: nonneg_cell_cases js_gt_def)

lemma cell_gt_irrefl: "nonneg_cell a \<Longrightarrow> \<not> cell_gt a a"
  by (auto simp: nonneg_cell_cases js_gt_def)

lemma best_fold:
  fixes es :: "(string \<times> cell) list"
  defines "step \<equiv> (\<lambda>max entry. if cell_gt (snd entry) (snd max) then entry else max)"
  assumes "list_all (\<lambda>e. nonneg_cell (snd e)) es" "nonneg_cell (snd m)"
  shows "nonneg_cell (snd (foldl step m es)) \<and>
         \<not> cell_gt (snd m) (snd (foldl step m es)) \<and>
         (\<forall>e\<in>set es. \<not> cell_gt (snd e) (snd (foldl step m es))) \<and>
         (foldl step m es = m \<or>
          (\<exists>pre post. es = pre @ foldl step m es # post \<and>
             (\<forall>d\<in>set pre. cell_gt (snd (foldl step m es)) (snd d)) \<and>
             cell_gt (snd (foldl step m es)) (snd m)))"
  using assms(2,3)
proof (induction es arbitrary: m)
  case Nil
  then show ?case by (simp add: cell_gt_irrefl)
next
  case (Cons e es)
  let ?m' = "step m e"
  let ?r = "foldl step ?m' es"
  from Cons.prems have e: "nonneg_cell (snd e)" and es: "list_all (\<lambda>e. nonneg_cell (snd e)) es"
    by simp_all
  have m': "nonneg_cell (snd ?m')" using e Cons.prems(2) by (simp add: step_def)
  from Cons.IH[OF es m'] have
    r: "nonneg_cell (snd ?r)" and rm': "\<not> cell_gt (snd ?m') (snd ?r)"
    and rmax: "\<forall>e\<in>set es. \<not> cell_gt (snd e) (snd ?r)"
    and rfirst: "?r = ?m' \<or>
          (\<exists>pre post. es = pre @ ?r # post \<and> (\<forall>d\<in>set pre. cell_gt (snd ?r) (snd d)) \<and>
             cell_gt (snd ?r) (snd ?m'))"
    by blast+
  have mm': "\<not> cell_gt (snd m) (snd ?m')"
    using e Cons.prems(2) by (auto simp: step_def nonneg_cell_cases js_gt_def)
  have em': "\<not> cell_gt (snd e) (snd ?m')"
    using e Cons.prems(2) by (auto simp: step_def nonneg_cell_cases js_gt_def)
  have 1: "\<not> cell_gt (snd m) (snd ?r)"
    using cell_le_trans[OF Cons.prems(2) m' r mm' rm'] .
  have 2: "\<not> cell_gt (snd e) (snd ?r)"
    using cell_le_trans[OF e m' r em' rm'] .
  have 3: "?r = m \<or>
          (\<exists>pre post. e # es = pre @ ?r # post \<and> (\<forall>d\<in>set pre. cell_gt (snd ?r) (snd d)) \<and>
             cell_gt (snd ?r) (snd m))"
  proof (cases "?r = ?m'")
    case True
    show ?thesis
    proof (cases "cell_gt (snd e) (snd m)")
      case True
      with \<open>?r = ?m'\<close> have "?r = e" by (simp add: step_def)
      then have "e # es = [] @ ?r # es \<and> (\<forall>d\<in>set []. cell_gt (snd ?r) (snd d)) \<and> cell_gt (snd ?r) (snd m)"
        using True by simp
      then show ?thesis by blast
    next
      case False
      with \<open>?r = ?m'\<close> show ?thesis by (simp add: step_def)
    qed
  next
    case False
    with rfirst obtain pre post where split: "es = pre @ ?r # post"
      and before: "\<forall>d\<in>set pre. cell_gt (snd ?r) (snd d)" and gt: "cell_gt (snd ?r) (snd ?m')"
      by blast
    have "cell_gt (snd ?r) (snd e)" using cell_gt_le_trans[OF r m' e gt em'] .
    moreover have "cell_gt (snd ?r) (snd m)" using cell_gt_le_trans[OF r m' Cons.prems(2) gt mm'] .
    ultimately have "e # es = (e # pre) @ ?r # post \<and> (\<forall>d\<in>set (e # pre). cell_gt (snd ?r) (snd d)) \<and>
        cell_gt (snd ?r) (snd m)"
      using split before by simp
    then show ?thesis by blast
  qed
  from r 1 2 rmax 3 show ?case by simp
qed

lemma foldl_js_add_nonneg:
  "js_ge t (Fin 0) \<Longrightarrow> list_all (\<lambda>a. js_ge a (Fin 0)) as \<Longrightarrow> js_ge (foldl js_add t as) (Fin 0)"
  by (induction as arbitrary: t) (auto simp: js_add_nonneg)

lemma category_sum_nonneg:
  assumes "list_all valid_record sales"
  shows "js_ge (category_sum sales c) (Fin 0)"
proof -
  have "list_all (\<lambda>a. js_ge a (Fin 0)) (map amount_of (filter (\<lambda>s. category_of s = c) sales))"
    using assms by (auto simp: list_all_iff valid_record_fields(4))
  then show ?thesis
    unfolding category_sum_def js_sum_def by (intro foldl_js_add_nonneg) (simp_all add: js_ge_def)
qed

lemma find_first:
  "xs = pre @ x # post \<Longrightarrow> P x \<Longrightarrow> \<forall>y\<in>set pre. \<not> P y \<Longrightarrow> find P xs = Some x"
  by (induction pre arbitrary: xs) auto


lemma accepted_step: "accepted s \<Longrightarrow> \<exists>acc'. sale_step acc s = Normal acc'"
  by (auto simp: accepted_def sale_step_def sale_invalid_def
      split: sum.splits if_splits jsval.splits)

lemma accepted_loop: "list_all accepted pre \<Longrightarrow> \<exists>acc'. sales_loop acc pre = Normal acc'"
proof (induction pre arbitrary: acc)
  case Nil
  then show ?case by simp
next
  case (Cons s pre)
  then obtain acc1 where "sale_step acc s = Normal acc1" using accepted_step by fastforce
  moreover from Cons obtain acc' where "sales_loop acc1 pre = Normal acc'" by fastforce
  ultimately show ?case by simp
qed

lemma sale_step_Return_iff:
  "sale_step acc s = Return invalid_sale_record \<longleftrightarrow> sale_invalid s = Inr True"
  by (auto simp: sale_step_def sale_invalid_def split: sum.splits if_splits jsval.splits)

lemma first_invalid_record:
  assumes "list_all accepted pre" and "sale_invalid bad = Inr True"
  shows "POST generate (Inr (Arr (pre @ bad # rest))) = (invalid_sale_record, [])"
proof -
  from accepted_loop[OF assms(1)] obtain acc where "sales_loop (Fin 0, []) pre = Normal acc"
    by blast
  moreover have "sale_step acc bad = Return invalid_sale_record"
    using assms(2) by (simp add: sale_step_Return_iff)
  ultimately have "sales_loop (Fin 0, []) (pre @ bad # rest) = Return invalid_sale_record"
    by (simp add: sales_loop_append)
  then show ?thesis by (intro POST_Return) simp_all
qed


lemma example_valid:
  "list_all valid_record example_sales"
  "list_all (\<lambda>s. \<not> inherited (category_of s)) example_sales"
  by (simp_all add: example_sales_def sale_record_def valid_record_def js_ge_def category_of_def
      inherited_def Object_prototype_functions_def)

lemma example_loop:
  "sales_loop (Fin 0, []) example_sales =
     Normal (Fin 350, [(''Electronics'', CNum (Fin 300)), (''Clothing'', CNum (Fin 50))])"
  unfolding sales_loop_object[OF example_valid]
  by (simp add: example_sales_def sale_record_def category_of_def amount_of_def category_sum_def
      js_sum_def round_small)

lemma example_entries:
  "Object_entries [(''Electronics'', CNum (Fin 300)), (''Clothing'', CNum (Fin 50))]
     = [(''Electronics'', CNum (Fin 300)), (''Clothing'', CNum (Fin 50))]"
  by code_simp

lemma example_best:
  "bestCategory [(''Electronics'', CNum (Fin 300)), (''Clothing'', CNum (Fin 50))]
     = (''Electronics'', CNum (Fin 300))"
  unfolding bestCategory_def example_entries by (simp add: js_gt_def)

lemma example_response:
  "POST mock_summary (Inr (Arr example_sales)) =
     (\<lparr>body = SuccessBody example_insights ''Mocked AI summary'', status = 200\<rparr>,
      [ExternalCall (aiPrompt example_insights)])"
proof -
  have ne: "example_sales \<noteq> []" and len: "length example_sales = 3"
    by (simp_all add: example_sales_def)
  show ?thesis
    unfolding POST_Normal[OF ne example_loop] len
    by (simp add: make_insights_def example_best mock_summary_def example_insights_def)
qed


lemma POST_valid:
  assumes "fst (POST generate (Inr (Arr sales))) = \<lparr>body = SuccessBody ins summary, status = 200\<rparr>"
    and "list_all valid_record sales"
    and "list_all (\<lambda>s. \<not> inherited (category_of s)) sales"
  shows "categorySales ins =
           map (\<lambda>c. (c, CNum (category_sum sales c))) (first_seen (map category_of sales))"
    and "bestPerformingCategory ins = fst (bestCategory (categorySales ins))"
proof -
  from POST_success[OF assms(1)] obtain acc where
    "sales_loop (Fin 0, []) sales = Normal acc" "ins = make_insights acc (length sales)"
    by auto
  then show "categorySales ins =
           map (\<lambda>c. (c, CNum (category_sum sales c))) (first_seen (map category_of sales))"
    and "bestPerformingCategory ins = fst (bestCategory (categorySales ins))"
    using sales_loop_object[OF assms(2,3)] by (auto simp: make_insights_def)
qed









text \<open>
  C2, as amended. For every non-empty array of valid records none of whose categories
  is a name that \<open>Object.prototype\<close> defines, some category of which has a positive
  summed amount, and that the handler answers with 200, \<open>bestPerformingCategory\<close>
  is a category of the input whose summed amount no category exceeds, and among the
  categories of that maximal sum it is the first in the order in which
  \<open>categorySales\<close> lists its keys: array indices ascending, then the other
  categories by first occurrence.
\<close>

theorem best_category:
  assumes "fst (POST generate (Inr (Arr sales))) = \<lparr>body = SuccessBody ins summary, status = 200\<rparr>"
    and "list_all valid_record sales"
    and "list_all (\<lambda>s. \<not> inherited (category_of s)) sales"
    and "list_ex (\<lambda>s. js_gt (category_sum sales (category_of s)) (Fin 0)) sales"
  shows "first_maximal (category_sum sales) (key_order (first_seen (map category_of sales)))
           = Some (bestPerformingCategory ins) \<and>
         bestPerformingCategory ins \<in> set (map category_of sales)"
proof -
  define f where "f = category_sum sales"
  define ks where "ks = key_order (first_seen (map category_of sales))"
  define es where "es = map (\<lambda>c. (c, CNum (f c))) ks"
  define m where "m = (([], CNum (Fin 0)) :: string \<times> cell)"
  define r where
    "r = foldl (\<lambda>max entry. if cell_gt (snd entry) (snd max) then entry else max) m es"
  have entries: "Object_entries (categorySales ins) = es"
    unfolding POST_valid(1)[OF assms(1-3)] es_def ks_def f_def by (rule Object_entries_map)
  have best: "bestPerformingCategory ins = fst r"
    unfolding POST_valid(2)[OF assms(1-3)] bestCategory_def entries r_def m_def ..
  have good: "list_all (\<lambda>e. nonneg_cell (snd e)) es"
    using category_sum_nonneg[OF assms(2)] by (simp add: list_all_iff es_def f_def)
  have m: "nonneg_cell (snd m)" by (simp add: js_ge_def m_def)
  note bf = best_fold[OF good m, folded r_def]
  from bf have rmax: "\<forall>e\<in>set es. \<not> cell_gt (snd e) (snd r)" by (elim conjE)
  from bf have rfirst: "r = m \<or>
          (\<exists>pre post. es = pre @ r # post \<and> (\<forall>d\<in>set pre. cell_gt (snd r) (snd d)) \<and>
             cell_gt (snd r) (snd m))" by (elim conjE)
  from assms(4) obtain s where s: "s \<in> set sales" and pos: "js_gt (f (category_of s)) (Fin 0)"
    by (auto simp: list_ex_iff f_def)
  from s have "category_of s \<in> set ks" by (simp add: ks_def)
  then have "(category_of s, CNum (f (category_of s))) \<in> set es" by (simp add: es_def)
  with rmax have "\<not> cell_gt (CNum (f (category_of s))) (snd r)" by fastforce
  with pos have "r \<noteq> m" by (auto simp: m_def)
  with rfirst obtain pre post where split: "es = pre @ r # post"
    and before: "\<forall>d\<in>set pre. cell_gt (snd r) (snd d)"
    by blast
  from split have "r \<in> set es" by simp
  then obtain c where c: "c \<in> set ks" and r: "r = (c, CNum (f c))" by (auto simp: es_def)
  have "ks = map fst es" by (simp add: es_def comp_def)
  also have "\<dots> = map fst pre @ fst r # map fst post" by (subst split) simp
  finally have ks: "ks = map fst pre @ c # map fst post" by (simp add: r)
  have pre_sub: "set pre \<subseteq> set es" by (subst split) auto
  have P_c: "list_all (\<lambda>d. \<not> js_gt (f d) (f c)) ks"
    using rmax unfolding r by (simp add: list_all_iff es_def)
  have not_P: "\<forall>y\<in>set (map fst pre). \<not> list_all (\<lambda>d. \<not> js_gt (f d) (f y)) ks"
  proof
    fix y assume "y \<in> set (map fst pre)"
    then obtain d where d: "d \<in> set pre" and y: "y = fst d" by auto
    with pre_sub have "d \<in> set es" by blast
    then have dg: "snd d = CNum (f y)" using y by (auto simp: es_def)
    from before d have "cell_gt (snd r) (snd d)" by blast
    then have "js_gt (f c) (f y)" unfolding r dg by simp
    with c show "\<not> list_all (\<lambda>d. \<not> js_gt (f d) (f y)) ks" by (auto simp: list_all_iff)
  qed
  have "first_maximal f ks = Some c"
    unfolding first_maximal_def by (rule find_first[OF ks P_c not_P])
  moreover have bc: "bestPerformingCategory ins = c" using best r by simp
  ultimately have "first_maximal (category_sum sales) (key_order (first_seen (map category_of sales)))
           = Some (bestPerformingCategory ins)" by (simp add: f_def ks_def)
  moreover from c bc have "bestPerformingCategory ins \<in> set (map category_of sales)"
    by (simp add: ks_def)
  ultimately show ?thesis by (rule conjI)
qed

lemma tie_sales_valid:
  "list_all valid_record tie_sales"
  "list_all (\<lambda>s. \<not> inherited (category_of s)) tie_sales"
  by (simp_all add: tie_sales_def sale_record_def valid_record_def js_ge_def category_of_def
      inherited_def Object_prototype_functions_def)

lemma tie_sales_sums:
  "category_sum tie_sales ''b'' = Fin 1" "category_sum tie_sales ''1'' = Fin 1"
  by (simp_all add: tie_sales_def sale_record_def category_of_def amount_of_def category_sum_def
      js_sum_def round_small)

lemma tie_sales_loop:
  "sales_loop (Fin 0, []) tie_sales = Normal (Fin 2, [(''b'', CNum (Fin 1)), (''1'', CNum (Fin 1))])"
  unfolding sales_loop_object[OF tie_sales_valid]
  by (simp add: tie_sales_def sale_record_def category_of_def amount_of_def category_sum_def
      js_sum_def round_small)

lemma tie_sales_entries:
  "Object_entries [(''b'', CNum (Fin 1)), (''1'', CNum (Fin 1))]
     = [(''1'', CNum (Fin 1)), (''b'', CNum (Fin 1))]"
  by code_simp

lemma tie_sales_best:
  "bestCategory [(''b'', CNum (Fin 1)), (''1'', CNum (Fin 1))] = (''1'', CNum (Fin 1))"
  unfolding bestCategory_def tie_sales_entries by (simp add: js_gt_def)

lemma tie_sales_response:
  "fst (POST mock_summary (Inr (Arr tie_sales))) =
     \<lparr>body = SuccessBody
        \<lparr>totalSales = Fin 2, averageSale = Fin 1,
         categorySales = [(''b'', CNum (Fin 1)), (''1'', CNum (Fin 1))],
         bestPerformingCategory = ''1''\<rparr> ''Mocked AI summary'', status = 200\<rparr>"
proof -
  have ne: "tie_sales \<noteq> []" and len: "length tie_sales = 2"
    by (simp_all add: tie_sales_def)
  show ?thesis
    unfolding POST_Normal[OF ne tie_sales_loop] len
    by (simp add: make_insights_def tie_sales_best mock_summary_def round_small)
qed

lemma tie_sales_positive:
  "list_ex (\<lambda>s. js_gt (category_sum tie_sales (category_of s)) (Fin 0)) tie_sales"
  by (simp add: tie_sales_def sale_record_def category_of_def)
     (simp add: tie_sales_sums[unfolded tie_sales_def sale_record_def] js_gt_def)

theorem best_category_witness:
  "fst (POST mock_summary (Inr (Arr tie_sales))) =
     \<lparr>body = SuccessBody
        \<lparr>totalSales = Fin 2, averageSale = Fin 1,
         categorySales = [(''b'', CNum (Fin 1)), (''1'', CNum (Fin 1))],
         bestPerformingCategory = ''1''\<rparr> ''Mocked AI summary'', status = 200\<rparr>
   \<and> list_all valid_record tie_sales
   \<and> list_all (\<lambda>s. \<not> inherited (category_of s)) tie_sales
   \<and> list_ex (\<lambda>s. js_gt (category_sum tie_sales (category_of s)) (Fin 0)) tie_sales
   \<and> first_maximal (category_sum tie_sales) (key_order (first_seen (map category_of tie_sales)))
       = Some ''1''"
  using best_category[OF tie_sales_response tie_sales_valid tie_sales_positive, THEN conjunct1]
    tie_sales_valid tie_sales_positive tie_sales_response
  by simp

theorem best_category_tie_counterexample:
  "list_all valid_record tie_sales \<and>
   fst (POST mock_summary (Inr (Arr tie_sales))) =
     \<lparr>body = SuccessBody
        \<lparr>totalSales = Fin 2, averageSale = Fin 1,
         categorySales = [(''b'', CNum (Fin 1)), (''1'', CNum (Fin 1))],
         bestPerformingCategory = ''1''\<rparr> ''Mocked AI summary'', status = 200\<rparr> \<and>
   first_maximal (category_sum tie_sales) (first_seen (map category_of tie_sales)) = Some ''b''"
proof -
  have "first_seen (map category_of tie_sales) = [''b'', ''1'']"
    by (simp add: tie_sales_def sale_record_def category_of_def)
  then have "first_maximal (category_sum tie_sales) (first_seen (map category_of tie_sales)) = Some ''b''"
    by (simp add: first_maximal_def tie_sales_sums js_gt_def)
  then show ?thesis by (simp add: tie_sales_valid tie_sales_response)
qed

text \<open>
  C4, as amended. For every input array in which a record fails the field validation
  and every element before it passes that validation and has a category that converts
  to a property key (as every valid record does), the handler returns 400 with the body
  \<open>{ error: "Invalid sale record" }\<close>: the response names neither the record nor
  the field and carries no insights, the external service is not called and nothing is
  logged.
\<close>

theorem invalid_record_rejected:
  assumes "list_all accepted pre" and "sale_invalid bad = Inr True"
  shows "POST generate (Inr (Arr (pre @ bad # rest))) = (invalid_sale_record, [])"
  using assms by (rule first_invalid_record)

lemma missing_amount_invalid: "sale_invalid missing_amount = Inr True"
  by (simp add: sale_invalid_def missing_amount_def)

theorem invalid_record_rejected_witness:
  "list_all accepted example_sales \<and> sale_invalid missing_amount = Inr True \<and>
   POST mock_summary (Inr (Arr (example_sales @ missing_amount # [Null])))
     = (invalid_sale_record, [])"
proof -
  have a: "list_all accepted example_sales"
    using example_valid(1) by (simp add: list_all_iff valid_record_accepted)
  from a missing_amount_invalid invalid_record_rejected[OF a missing_amount_invalid]
  show ?thesis by simp
qed

theorem null_element_counterexample:
  "sale_invalid missing_amount = Inr True \<and>
   POST mock_summary (Inr (Arr [Null, missing_amount]))
     = (internal_server_error, [ConsoleError TypeError])"
  by (simp add: missing_amount_invalid POST_def try_block_def sale_step_def)






lemma sale_invalid_fields:
  assumes "get_field sale ''category'' = Inr c" and "get_field sale ''amount'' = Inr a"
  shows "sale_invalid sale = Inr (\<not> truthy c \<or> amount_invalid a)"
  using assms by (cases a) (simp_all add: sale_invalid_def)

lemma POST_last_record:
  assumes "list_all accepted pre"
  shows "fst (POST generate (Inr (Arr (pre @ [sale])))) = invalid_sale_record
           \<longleftrightarrow> sale_invalid sale = Inr True"
proof
  assume "sale_invalid sale = Inr True"
  from first_invalid_record[OF assms this, of generate "[]"]
  show "fst (POST generate (Inr (Arr (pre @ [sale])))) = invalid_sale_record" by simp
next
  assume r: "fst (POST generate (Inr (Arr (pre @ [sale])))) = invalid_sale_record"
  from accepted_loop[OF assms] obtain acc where pre: "sales_loop (Fin 0, []) pre = Normal acc"
    by blast
  have ne: "pre @ [sale] \<noteq> []" by simp
  show "sale_invalid sale = Inr True"
  proof (cases "sale_step acc sale")
    case (Throw e)
    with pre have "sales_loop (Fin 0, []) (pre @ [sale]) = Throw e"
      by (simp add: sales_loop_append)
    from POST_Throw[OF ne this, of generate] r show ?thesis
      by (simp add: invalid_sale_record_def internal_server_error_def)
  next
    case (Return x)
    with sale_step_Return[OF this] show ?thesis by (simp add: sale_step_Return_iff)
  next
    case (Normal acc')
    with pre have "sales_loop (Fin 0, []) (pre @ [sale]) = Normal acc'"
      by (simp add: sales_loop_append)
    from POST_Normal[OF ne this, of generate] r show ?thesis
      by (auto simp: invalid_sale_record_def internal_server_error_def split: sum.splits)
  qed
qed

text \<open>
  C6. The field validation of a record (one whose fields can be read: any element but
  \<open>null\<close>) fails exactly when its category is falsy or its amount is invalid, where an
  amount is invalid exactly when it is not a number or is negative. A record that
  follows accepted records is answered with 400 \<open>{ error: "Invalid sale record" }\<close>
  if and only if it fails the field validation; every amount that is a number
  \<open>>= 0\<close> passes the check of the amount.
\<close>

theorem field_validation:
  assumes "get_field sale ''category'' = Inr c" and "get_field sale ''amount'' = Inr a"
    and "list_all accepted pre"
  shows "sale_invalid sale = Inr (\<not> truthy c \<or> amount_invalid a) \<and>
         (fst (POST generate (Inr (Arr (pre @ [sale])))) = invalid_sale_record
            \<longleftrightarrow> sale_invalid sale = Inr True) \<and>
         (amount_invalid a \<longleftrightarrow> \<not> is_number a \<or> (\<exists>n. a = Num n \<and> js_lt n (Fin 0))) \<and>
         (\<forall>n. js_ge n (Fin 0) \<longrightarrow> \<not> amount_invalid (Num n))"
proof -
  have "amount_invalid a \<longleftrightarrow> \<not> is_number a \<or> (\<exists>n. a = Num n \<and> js_lt n (Fin 0))"
    by (cases a) simp_all
  moreover have "\<forall>n. js_ge n (Fin 0) \<longrightarrow> \<not> amount_invalid (Num n)"
    by (simp add: js_ge_def)
  ultimately show ?thesis
    using sale_invalid_fields[OF assms(1,2)] POST_last_record[OF assms(3), of generate sale]
    by blast
qed

theorem field_validation_witness:
  "get_field (sale_record ''A'' (Fin (- 5))) ''category'' = Inr (Str ''A'') \<and>
   get_field (sale_record ''A'' (Fin (- 5))) ''amount'' = Inr (Num (Fin (- 5))) \<and>
   list_all accepted example_sales \<and>
   sale_invalid (sale_record ''A'' (Fin (- 5))) = Inr True \<and>
   fst (POST mock_summary (Inr (Arr (example_sales @ [sale_record ''A'' (Fin (- 5))]))))
     = invalid_sale_record"
proof -
  have c: "get_field (sale_record ''A'' (Fin (- 5))) ''category'' = Inr (Str ''A'')"
    and a: "get_field (sale_record ''A'' (Fin (- 5))) ''amount'' = Inr (Num (Fin (- 5)))"
    by (simp_all add: sale_record_def)
  have p: "list_all accepted example_sales"
    using example_valid(1) by (simp add: list_all_iff valid_record_accepted)
  from field_validation[OF c a p, of mock_summary] c a p show ?thesis by simp
qed

text \<open>
  C7. For every parsed payload that is not an array, and for the empty array, the
  handler returns 400 with the body
  \<open>{ error: "Invalid input: Expected an array of sales records" }\<close>; no record is
  validated, the external service is not called and nothing is logged.
\<close>

theorem not_an_array_rejected:
  assumes "\<not> is_array v \<or> v = Arr []"
  shows "POST generate (Inr v) = (invalid_input, [])"
  using assms by (cases v) (simp_all add: POST_def try_block_def)

theorem not_an_array_rejected_witness:
  "POST mock_summary (Inr (Arr [])) = (invalid_input, []) \<and>
   POST mock_summary (Inr (Obj [(''category'', Str ''Electronics'')])) = (invalid_input, [])"
  using not_an_array_rejected[of "Arr []" mock_summary]
    not_an_array_rejected[of "Obj [(''category'', Str ''Electronics'')]" mock_summary]
  by simp

text \<open>
  C8. For every non-empty array of valid records the handler calls the external
  service, with one prompt that the records determine; if that call raises an error,
  whichever it is, the handler returns 500 with the body
  \<open>{ error: "Internal Server Error" }\<close>: the response carries neither the error nor
  any insights, and the error is only logged.
\<close>

theorem external_failure:
  assumes "sales \<noteq> []" and "list_all valid_record sales"
  shows "\<exists>prompt. \<forall>generate e. generate prompt = Inl e \<longrightarrow>
           POST generate (Inr (Arr sales))
             = (internal_server_error, [ExternalCall prompt, ConsoleError e])"
proof -
  from assms(2) have "list_all accepted sales"
    by (simp add: list_all_iff valid_record_accepted)
  from accepted_loop[OF this] obtain acc where "sales_loop (Fin 0, []) sales = Normal acc"
    by blast
  from POST_Normal[OF assms(1) this] show ?thesis by (auto split: sum.splits)
qed

theorem external_failure_witness:
  "example_sales \<noteq> [] \<and> list_all valid_record example_sales \<and>
   POST api_failure (Inr (Arr example_sales))
     = (internal_server_error,
        [ExternalCall (aiPrompt example_insights), ConsoleError (ServiceError ''API failure'')])"
proof -
  have ne: "example_sales \<noteq> []" by (simp add: example_sales_def)
  from external_failure[OF ne example_valid(1)] obtain prompt where
    p: "\<And>generate e. generate prompt = Inl e \<Longrightarrow>
           POST generate (Inr (Arr example_sales))
             = (internal_server_error, [ExternalCall prompt, ConsoleError e])"
    by blast
  have "POST api_failure (Inr (Arr example_sales))
     = (internal_server_error,
        [ExternalCall (aiPrompt example_insights), ConsoleError (ServiceError ''API failure'')])"
    using POST_Normal[OF ne example_loop, of api_failure]
    by (simp add: api_failure_def make_insights_def example_best example_insights_def
        example_sales_def)
  with ne example_valid(1) p show ?thesis by simp
qed

text \<open>
  C10. A record whose amount is NaN passes the field validation: NaN has the type
  number and is not less than 0. For the array of one such record the handler goes past
  the validation and answers 200 with \<open>totalSales\<close> and \<open>averageSale\<close> both NaN.
\<close>

theorem nan_amount_accepted:
  "sale_invalid (sale_record ''A'' NaN) = Inr False \<and>
   POST mock_summary (Inr (Arr nan_sales)) =
     (\<lparr>body = SuccessBody
        \<lparr>totalSales = NaN, averageSale = NaN,
         categorySales = [(''A'', CNum NaN)],
         bestPerformingCategory = []\<rparr> ''Mocked AI summary'', status = 200\<rparr>,
      [ExternalCall (aiPrompt
        \<lparr>totalSales = NaN, averageSale = NaN,
         categorySales = [(''A'', CNum NaN)],
         bestPerformingCategory = []\<rparr>)])"
proof -
  have step: "sale_step (Fin 0, []) (sale_record ''A'' NaN) = Normal (NaN, [(''A'', CNum NaN)])"
    by (simp add: sale_step_def sale_record_def ToPropertyKey_def get_property_def
        set_property_def Object_prototype_functions_def)
  have best: "bestCategory [(''A'', CNum NaN)] = ([], CNum (Fin 0))"
    by code_simp
  have "sales_loop (Fin 0, []) nan_sales = Normal (NaN, [(''A'', CNum NaN)])"
    by (simp add: nan_sales_def step)
  from POST_Normal[OF _ this, of mock_summary]
  have "POST mock_summary (Inr (Arr nan_sales)) =
     (\<lparr>body = SuccessBody
        \<lparr>totalSales = NaN, averageSale = NaN,
         categorySales = [(''A'', CNum NaN)],
         bestPerformingCategory = []\<rparr> ''Mocked AI summary'', status = 200\<rparr>,
      [ExternalCall (aiPrompt
        \<lparr>totalSales = NaN, averageSale = NaN,
         categorySales = [(''A'', CNum NaN)],
         bestPerformingCategory = []\<rparr>)])"
    by (simp add: make_insights_def best mock_summary_def nan_sales_def)
  then show ?thesis by (simp add: sale_invalid_def sale_record_def)
qed

section \<open>The prompt\<close>

lemma digit_char_digit: "0 \<le> d \<Longrightarrow> d < 10 \<Longrightarrow> is_digit_of 10 (digit_char d)"
  by (simp add: is_digit_of_def digit_value_def digit_char_def Let_def)

lemma decimal_digits_digits: "0 \<le> n \<Longrightarrow> list_all (is_digit_of 10) (decimal_digits n)"
proof (induction n rule: decimal_digits.induct)
  case (1 n)
  show ?case
  proof (cases "n < 10")
    case True
    with "1.prems" show ?thesis by (subst decimal_digits.simps) (simp add: digit_char_digit)
  next
    case False
    then have "0 \<le> n div 10" by simp
    with "1.IH"[OF False] have "list_all (is_digit_of 10) (decimal_digits (n div 10))" by simp
    moreover have "is_digit_of 10 (digit_char (n mod 10))" by (rule digit_char_digit) simp_all
    ultimately show ?thesis using False by (subst decimal_digits.simps) simp
  qed
qed

lemma decimal_digits_nonempty: "decimal_digits n \<noteq> []"
  by (subst decimal_digits.simps) simp

lemma digit_char_zero: "digit_char 0 = CHR ''0''"
  by code_simp

lemma decimal_digits_padded:
  assumes "0 \<le> n"
  shows "replicate (3 - length (decimal_digits n)) CHR ''0'' @ decimal_digits n
           = decimal_digits (n div 100) @ [digit_char (n div 10 mod 10), digit_char (n mod 10)]"
proof -
  consider "n < 10" | "10 \<le> n" "n < 100" | "100 \<le> n" by linarith
  then show ?thesis
  proof cases
    case 1
    with assms have "n div 100 = 0" "n div 10 = 0" "n mod 10 = n" by simp_all
    moreover have "decimal_digits n = [digit_char n]" using 1 by (subst decimal_digits.simps) simp
    moreover have "decimal_digits 0 = [digit_char 0]" by (subst decimal_digits.simps) simp
    ultimately show ?thesis by (simp add: digit_char_zero numeral_2_eq_2)
  next
    case 2
    then have d: "n div 100 = 0" "n div 10 < 10" "n div 10 mod 10 = n div 10" by simp_all
    have "decimal_digits n = decimal_digits (n div 10) @ [digit_char (n mod 10)]"
      using 2 by (subst decimal_digits.simps) simp
    moreover have "decimal_digits (n div 10) = [digit_char (n div 10)]"
      using d by (subst decimal_digits.simps) simp
    moreover have "decimal_digits 0 = [digit_char 0]" by (subst decimal_digits.simps) simp
    ultimately show ?thesis using d by (simp add: digit_char_zero)
  next
    case 3
    then have d: "\<not> n < 10" "\<not> n div 10 < 10" "n div 10 div 10 = n div 100" by simp_all
    have a: "decimal_digits n = decimal_digits (n div 10) @ [digit_char (n mod 10)]"
      using d by (subst decimal_digits.simps) simp
    have b: "decimal_digits (n div 10)
               = decimal_digits (n div 100) @ [digit_char (n div 10 mod 10)]"
      using d by (subst decimal_digits.simps) simp
    have "Suc 0 \<le> length (decimal_digits (n div 100))"
      using decimal_digits_nonempty[of "n div 100"] by (cases "decimal_digits (n div 100)") simp_all
    then have "3 - length (decimal_digits n) = 0" unfolding a b by simp
    then show ?thesis unfolding a b by simp
  qed
qed

lemma toFixed2_fixed_two:
  assumes "0 \<le> r" and "r < 10 ^ 21"
  shows "toFixed2 (Fin r) = fixed_two r"
proof -
  define n where "n = \<lfloor>r * 100 + 1 / 2\<rfloor>"
  have n: "0 \<le> n" using assms(1) by (simp add: n_def)
  define m where "m = replicate (3 - length (decimal_digits n)) CHR ''0'' @ decimal_digits n"
  have m: "m = decimal_digits (n div 100) @ [digit_char (n div 10 mod 10), digit_char (n mod 10)]"
    unfolding m_def by (rule decimal_digits_padded[OF n])
  have small: "\<not> powi_rat 10 21 \<le> \<bar>r\<bar>" using assms by (simp add: powi_rat_def)
  have "toFixed2 (Fin r) = take (length m - 2) m @ ''.'' @ drop (length m - 2) m"
    using assms(1) small by (simp add: toFixed2_def Let_def n_def m_def)
  also have "\<dots> = fixed_two r"
    unfolding m by (simp add: fixed_two_def Let_def n_def)
  finally show ?thesis .
qed

lemma two_decimalsI:
  assumes "A \<noteq> []" and "length B = 2"
    and "list_all (is_digit_of 10) A" and "list_all (is_digit_of 10) B"
  shows "two_decimals (A @ ''.'' @ B)"
  using assms by (cases A) (simp_all add: two_decimals_def nth_append)

lemma fixed_two_decimals:
  assumes "0 \<le> r"
  shows "two_decimals (fixed_two r)"
proof -
  define n where "n = \<lfloor>r * 100 + 1 / 2\<rfloor>"
  have n: "0 \<le> n" using assms by (simp add: n_def)
  then have "0 \<le> n div 100" by simp
  then have "list_all (is_digit_of 10) (decimal_digits (n div 100))"
    by (rule decimal_digits_digits)
  moreover have "list_all (is_digit_of 10) [digit_char (n div 10 mod 10), digit_char (n mod 10)]"
    by (simp add: digit_char_digit)
  ultimately show ?thesis
    unfolding fixed_two_def Let_def n_def[symmetric]
    by (intro two_decimalsI) (simp_all add: decimal_digits_nonempty)
qed

lemma toFixed2_nonneg:
  assumes "js_ge x (Fin 0)"
  shows "(\<exists>r. x = Fin r \<and> r < 10 ^ 21 \<and> toFixed2 x = fixed_two r \<and> two_decimals (toFixed2 x)) \<or>
         ((x = PInf \<or> (\<exists>r. x = Fin r \<and> 10 ^ 21 \<le> r)) \<and> toFixed2 x = NumberToString x)"
proof (cases x)
  case (Fin r)
  with assms have r: "0 \<le> r" by (simp add: js_ge_def)
  show ?thesis
  proof (cases "r < 10 ^ 21")
    case True
    with r Fin show ?thesis by (simp add: toFixed2_fixed_two fixed_two_decimals)
  next
    case False
    then have "powi_rat 10 21 \<le> \<bar>r\<bar>" using r by (simp add: powi_rat_def)
    with r Fin False show ?thesis by (simp add: toFixed2_def Let_def)
  qed
next
  case PInf
  then show ?thesis by (simp add: toFixed2_def)
qed (use assms in \<open>simp_all add: js_ge_def\<close>)

lemma js_div_nonneg:
  assumes "js_ge a (Fin 0)" and "0 < n"
  shows "js_ge (js_div a (Fin (of_nat n))) (Fin 0)"
proof (cases a)
  case (Fin r)
  with assms have "0 \<le> r / of_nat n" by (simp add: js_ge_def)
  then show ?thesis using Fin assms(2) by (simp add: round_double_nonneg)
next
  case PInf
  then show ?thesis by (simp add: js_ge_def)
qed (use assms in \<open>simp_all add: js_ge_def\<close>)

lemma aiPrompt_template:
  "aiPrompt ins =
     template (toFixed2 (totalSales ins)) (toFixed2 (averageSale ins))
       (bestPerformingCategory ins) (JSON_stringify (categorySales ins))"
  by (simp add: aiPrompt_def template_def)

text \<open>
  C9, as amended. For every non-empty array of valid records the handler sends the
  external service one prompt: the fixed template around four values of the insights
  it has computed, namely \<open>totalSales.toFixed(2)\<close>, \<open>averageSale.toFixed(2)\<close>, the
  name \<open>bestPerformingCategory\<close> and \<open>categorySales\<close> as JSON text indented by two
  spaces, followed by the instruction to summarize in a business-friendly tone. Each
  of the two numbers is formatted to 2 decimal places when it is below \<open>10 ^ 21\<close>;
  from \<open>10 ^ 21\<close> on, and for Infinity, \<open>toFixed(2)\<close> gives the default text of the
  number instead.
\<close>

theorem prompt_sent:
  assumes "sales \<noteq> []" and "list_all valid_record sales"
  shows "\<exists>ins.
     (\<forall>generate. \<exists>rest.
        snd (POST generate (Inr (Arr sales))) =
          ExternalCall
            (template (toFixed2 (totalSales ins)) (toFixed2 (averageSale ins))
               (bestPerformingCategory ins) (JSON_stringify (categorySales ins))) # rest) \<and>
     (\<forall>generate summary ins'.
        fst (POST generate (Inr (Arr sales))) = \<lparr>body = SuccessBody ins' summary, status = 200\<rparr>
          \<longrightarrow> ins' = ins) \<and>
     totalSales ins = js_sum (map amount_of sales) \<and>
     averageSale ins = js_div (totalSales ins) (Fin (of_nat (length sales))) \<and>
     (\<forall>x\<in>{totalSales ins, averageSale ins}.
        (\<exists>r. x = Fin r \<and> r < 10 ^ 21 \<and> toFixed2 x = fixed_two r \<and> two_decimals (toFixed2 x)) \<or>
        ((x = PInf \<or> (\<exists>r. x = Fin r \<and> 10 ^ 21 \<le> r)) \<and> toFixed2 x = NumberToString x))"
proof -
  from assms(2) have "list_all accepted sales"
    by (simp add: list_all_iff valid_record_accepted)
  from accepted_loop[OF this] obtain acc where loop: "sales_loop (Fin 0, []) sales = Normal acc"
    by blast
  define ins where "ins = make_insights acc (length sales)"
  have total: "totalSales ins = js_sum (map amount_of sales)"
    using sales_loop_total[OF loop] by (simp add: ins_def make_insights_def js_sum_def)
  have average: "averageSale ins = js_div (totalSales ins) (Fin (of_nat (length sales)))"
    by (simp add: ins_def make_insights_def)
  have "list_all (\<lambda>a. js_ge a (Fin 0)) (map amount_of sales)"
    using assms(2) by (auto simp: list_all_iff valid_record_fields(4))
  then have t0: "js_ge (totalSales ins) (Fin 0)"
    unfolding total js_sum_def by (intro foldl_js_add_nonneg) (simp_all add: js_ge_def)
  have a0: "js_ge (averageSale ins) (Fin 0)"
    unfolding average using t0 assms(1) by (intro js_div_nonneg) simp_all
  have sent: "\<exists>rest. snd (POST generate (Inr (Arr sales))) =
          ExternalCall
            (template (toFixed2 (totalSales ins)) (toFixed2 (averageSale ins))
               (bestPerformingCategory ins) (JSON_stringify (categorySales ins))) # rest"
    for generate
    unfolding POST_Normal[OF assms(1) loop] ins_def[symmetric] aiPrompt_template
    by (cases "generate (template (toFixed2 (totalSales ins)) (toFixed2 (averageSale ins))
               (bestPerformingCategory ins) (JSON_stringify (categorySales ins)))") simp_all
  have same: "ins' = ins"
    if "fst (POST generate (Inr (Arr sales))) = \<lparr>body = SuccessBody ins' summary, status = 200\<rparr>"
    for generate summary ins'
    using POST_success[OF that] loop by (auto simp: ins_def)
  from sent same total average toFixed2_nonneg[OF t0] toFixed2_nonneg[OF a0]
  show ?thesis by (intro exI[of _ ins]) blast
qed

lemma example_prompt:
  "aiPrompt example_insights = template ''350.00'' ''116.67'' ''Electronics'' example_breakdown"
  by code_simp

theorem prompt_sent_witness:
  "example_sales \<noteq> [] \<and> list_all valid_record example_sales \<and>
   snd (POST mock_summary (Inr (Arr example_sales))) =
     [ExternalCall (template ''350.00'' ''116.67'' ''Electronics'' example_breakdown)] \<and>
   (\<exists>ins :: insights. totalSales ins = js_sum (map amount_of example_sales) \<and>
      (\<exists>rest. snd (POST mock_summary (Inr (Arr example_sales))) =
          ExternalCall
            (template (toFixed2 (totalSales ins)) (toFixed2 (averageSale ins))
               (bestPerformingCategory ins) (JSON_stringify (categorySales ins))) # rest))"
proof -
  have ne: "example_sales \<noteq> []" by (simp add: example_sales_def)
  from prompt_sent[OF ne example_valid(1)] obtain ins where
    h: "(\<forall>generate. \<exists>rest.
        snd (POST generate (Inr (Arr example_sales))) =
          ExternalCall
            (template (toFixed2 (totalSales ins)) (toFixed2 (averageSale ins))
               (bestPerformingCategory ins) (JSON_stringify (categorySales ins))) # rest) \<and>
     (\<forall>generate summary ins'.
        fst (POST generate (Inr (Arr example_sales)))
          = \<lparr>body = SuccessBody ins' summary, status = 200\<rparr>
          \<longrightarrow> ins' = ins) \<and>
     totalSales ins = js_sum (map amount_of example_sales) \<and>
     averageSale ins = js_div (totalSales ins) (Fin (of_nat (length example_sales))) \<and>
     (\<forall>x\<in>{totalSales ins, averageSale ins}.
        (\<exists>r. x = Fin r \<and> r < 10 ^ 21 \<and> toFixed2 x = fixed_two r \<and> two_decimals (toFixed2 x)) \<or>
        ((x = PInf \<or> (\<exists>r. x = Fin r \<and> 10 ^ 21 \<le> r)) \<and> toFixed2 x = NumberToString x))" ..
  from h have sent: "\<forall>generate. \<exists>rest.
        snd (POST generate (Inr (Arr example_sales))) =
          ExternalCall
            (template (toFixed2 (totalSales ins)) (toFixed2 (averageSale ins))
               (bestPerformingCategory ins) (JSON_stringify (categorySales ins))) # rest"
    by (rule conjunct1)
  from h have total: "totalSales ins = js_sum (map amount_of example_sales)"
    by (elim conjE)
  from sent have rest: "\<exists>rest. snd (POST mock_summary (Inr (Arr example_sales))) =
          ExternalCall
            (template (toFixed2 (totalSales ins)) (toFixed2 (averageSale ins))
               (bestPerformingCategory ins) (JSON_stringify (categorySales ins))) # rest" ..
  from total rest
  have "totalSales ins = js_sum (map amount_of example_sales) \<and>
      (\<exists>rest. snd (POST mock_summary (Inr (Arr example_sales))) =
          ExternalCall
            (template (toFixed2 (totalSales ins)) (toFixed2 (averageSale ins))
               (bestPerformingCategory ins) (JSON_stringify (categorySales ins))) # rest)"
    by (rule conjI)
  then have "\<exists>ins :: insights. totalSales ins = js_sum (map amount_of example_sales) \<and>
      (\<exists>rest. snd (POST mock_summary (Inr (Arr example_sales))) =
          ExternalCall
            (template (toFixed2 (totalSales ins)) (toFixed2 (averageSale ins))
               (bestPerformingCategory ins) (JSON_stringify (categorySales ins))) # rest)"
    by (rule exI)
  with ne example_valid(1) show ?thesis
    by (simp add: example_response example_prompt)
qed

lemma big_sales_valid: "list_all valid_record big_sales"
  by (simp add: big_sales_def sale_record_def valid_record_def js_ge_def)

lemma big_sales_response:
  "POST mock_summary (Inr (Arr big_sales)) =
     (\<lparr>body = SuccessBody
        \<lparr>totalSales = Fin (10 ^ 21), averageSale = Fin (10 ^ 21),
         categorySales = [(''A'', CNum (Fin (10 ^ 21)))],
         bestPerformingCategory = ''A''\<rparr> ''Mocked AI summary'', status = 200\<rparr>,
      [ExternalCall (template ''1e+21'' ''1e+21'' ''A'' big_breakdown)])"
  by code_simp

theorem exponent_format_counterexample:
  "list_all valid_record big_sales \<and>
   POST mock_summary (Inr (Arr big_sales)) =
     (\<lparr>body = SuccessBody
        \<lparr>totalSales = Fin (10 ^ 21), averageSale = Fin (10 ^ 21),
         categorySales = [(''A'', CNum (Fin (10 ^ 21)))],
         bestPerformingCategory = ''A''\<rparr> ''Mocked AI summary'', status = 200\<rparr>,
      [ExternalCall (template ''1e+21'' ''1e+21'' ''A'' big_breakdown)]) \<and>
   toFixed2 (Fin (10 ^ 21)) = ''1e+21'' \<and>
   \<not> two_decimals ''1e+21''"
proof -
  have "toFixed2 (Fin (10 ^ 21)) = ''1e+21''" by code_simp
  moreover have "\<not> two_decimals ''1e+21''" by (simp add: two_decimals_def)
  ultimately show ?thesis using big_sales_valid big_sales_response by simp
qed

section \<open>Requests outside the hypotheses above\<close>

text \<open>
  When every amount is 0 no entry exceeds the initial value of the fold, and
  \<open>bestPerformingCategory\<close> is the empty name of that initial value.
\<close>

lemma zero_amounts_response:
  "fst (POST mock_summary (Inr (Arr [sale_record ''A'' (Fin 0)]))) =
     \<lparr>body = SuccessBody
        \<lparr>totalSales = Fin 0, averageSale = Fin 0,
         categorySales = [(''A'', CNum (Fin 0))],
         bestPerformingCategory = []\<rparr> ''Mocked AI summary'', status = 200\<rparr>"
  by code_simp

text \<open>
  A category named like a property of \<open>Object.prototype\<close> reads that property before
  it is first written: \<open>__proto__\<close> is never stored, and \<open>toString\<close> is stored as
  the text of the inherited function followed by the amount.
\<close>

lemma prototype_names_response:
  "fst (POST mock_summary
          (Inr (Arr [sale_record ''__proto__'' (Fin 7), sale_record ''toString'' (Fin 3)]))) =
     \<lparr>body = SuccessBody
        \<lparr>totalSales = Fin 10, averageSale = Fin 5,
         categorySales = [(''toString'', CStr ''function toString() { [native code] }3'')],
         bestPerformingCategory = []\<rparr> ''Mocked AI summary'', status = 200\<rparr>"
  by code_simp

text \<open>
  The sum is the sum of binary64 arithmetic: each addition rounds to the nearest
  double.
\<close>

lemma binary_rounding_example:
  "js_sum [round_double (1 / 10), round_double (2 / 10)]
     = Fin (1351079888211149 / 4503599627370496)"
  "round_double (3 / 10) = Fin (5404319552844595 / 18014398509481984)"
  by code_simp+

end
